theory Spec2Isabelle
  imports Complex_Main
begin

section \<open>JavaScript strings and objects\<close>

text \<open>
  A JavaScript string is a sequence of UTF-16 code units, and \<open>.length\<close> counts
  code units. The model represents the code units below 0x100 (the Latin-1 range), one
  \<^typ>\<open>char\<close> each, so that \<^term>\<open>length s\<close> is the \<open>.length\<close> of the
  source and a string literal reads as in the source.
\<close>

type_synonym js_string = string

text \<open>
  \<open>String.prototype.toLowerCase\<close> on one code unit of that range: A-Z and the
  upper-case letters of Latin-1 (0xC0-0xDE without the multiplication sign 0xD7) move
  up by 0x20, every other code unit is kept.
\<close>

definition toLowerCase_unit :: "char \<Rightarrow> char" where
  "toLowerCase_unit c =
     (let n = (of_char c :: nat)
      in if (65 \<le> n \<and> n \<le> 90) \<or> (192 \<le> n \<and> n \<le> 222 \<and> n \<noteq> 215)
         then char_of (n + 32) else c)"

definition toLowerCase :: "js_string \<Rightarrow> js_string" where
  "toLowerCase s = map toLowerCase_unit s"

text \<open>
  A plain object (created by \<open>{}\<close>, its prototype \<open>Object.prototype\<close>) is the list
  of its own enumerable properties in the order \<open>Object.keys\<close> lists them: the array
  indices in ascending numeric order, then the other keys in the order of their creation.
  An array index is a key that is the canonical decimal text of an integer from 0 to
  \<open>2^32 - 2\<close>. Property values are primitive values (strings, numbers).
\<close>

type_synonym 'v object = "(js_string \<times> 'v) list"

definition is_digit :: "char \<Rightarrow> bool" where
  "is_digit c = (48 \<le> (of_char c :: nat) \<and> (of_char c :: nat) \<le> 57)"

definition numeric_value :: "js_string \<Rightarrow> nat" where
  "numeric_value k = foldl (\<lambda>n c. 10 * n + (of_char c - 48)) 0 k"

definition array_index :: "js_string \<Rightarrow> nat option" where
  "array_index k =
     (if k \<noteq> [] \<and> list_all is_digit k \<and> (length k = 1 \<or> hd k \<noteq> CHR ''0'')
         \<and> numeric_value k < 4294967295
      then Some (numeric_value k) else None)"

text \<open>
  \<open>enumerated_before k' k\<close>: the existing key \<open>k'\<close> stays before the new key \<open>k\<close> in
  the enumeration. A key that is no array index comes after every existing key; an array
  index comes after the smaller array indices only.
\<close>

definition enumerated_before :: "js_string \<Rightarrow> js_string \<Rightarrow> bool" where
  "enumerated_before k' k =
     (case array_index k of
        None \<Rightarrow> True
      | Some i \<Rightarrow> (case array_index k' of None \<Rightarrow> False | Some i' \<Rightarrow> i' < i))"

fun obj_insert :: "js_string \<Rightarrow> 'v \<Rightarrow> 'v object \<Rightarrow> 'v object" where
  "obj_insert k v [] = [(k, v)]"
| "obj_insert k v ((k', v') # rest) =
     (if enumerated_before k' k then (k', v') # obj_insert k v rest
      else (k, v) # (k', v') # rest)"

definition obj_replace :: "js_string \<Rightarrow> 'v \<Rightarrow> 'v object \<Rightarrow> 'v object" where
  "obj_replace k v obj = map (\<lambda>(k', v'). (k', if k' = k then v else v')) obj"

text \<open>
  Defining the own property \<open>k\<close> (what \<open>Object.fromEntries\<close> does with an entry): the
  value of an existing property is replaced in place, a new property takes its place in
  the enumeration.
\<close>

definition obj_define :: "js_string \<Rightarrow> 'v \<Rightarrow> 'v object \<Rightarrow> 'v object" where
  "obj_define k v obj =
     (if k \<in> fst ` set obj then obj_replace k v obj else obj_insert k v obj)"

text \<open>
  The assignment \<open>obj[k] = v\<close>. For the key \<open>__proto__\<close>, when the object has no own
  property of that name, the assignment runs the setter every plain object inherits from
  \<open>Object.prototype\<close>: the setter ignores a primitive value and no own property is
  created. Every other assignment defines the own property.
\<close>

definition obj_set :: "js_string \<Rightarrow> 'v \<Rightarrow> 'v object \<Rightarrow> 'v object" where
  "obj_set k v obj =
     (if k = ''__proto__'' \<and> k \<notin> fst ` set obj then obj else obj_define k v obj)"

text \<open>
  \<open>obj[k]\<close> for a key that \<open>Object.prototype\<close> does not define, as \<open>content-type\<close>:
  \<open>undefined\<close> (here \<open>None\<close>) when the object has no such own property.
  \<open>delete obj[k]\<close> removes the own property.
\<close>

definition obj_get :: "'v object \<Rightarrow> js_string \<Rightarrow> 'v option" where
  "obj_get obj k = map_of obj k"

definition obj_delete :: "js_string \<Rightarrow> 'v object \<Rightarrow> 'v object" where
  "obj_delete k obj = filter (\<lambda>(k', v). k' \<noteq> k) obj"

text \<open>\<open>Object.assign(target, source)\<close>: every property of the source is assigned to the target, in order.\<close>

definition Object_assign :: "'v object \<Rightarrow> 'v object \<Rightarrow> 'v object" where
  "Object_assign target source = foldl (\<lambda>acc (k, v). obj_set k v acc) target source"

section \<open>Option Resolver: header normalization (src/index.js)\<close>

text \<open>
  \<open>#normalizeHeaders\<close>: \<open>headerKeys.forEach((key) => normalized[key.toLowerCase()] = headers[key])\<close>,
  starting from the empty object \<open>{}\<close>. Each entry of the list is a key of
  \<open>Object.keys(headers)\<close> with the value \<open>headers[key]\<close>, a string.
\<close>

definition normalizeHeaders :: "'v object \<Rightarrow> 'v object" where
  "normalizeHeaders headers =
     foldl (\<lambda>normalized (key, v). obj_set (toLowerCase key) v normalized) [] headers"

section \<open>Data model\<close>

text \<open>Values a response body can hold: raw text, or what a decoder made of it.\<close>

datatype json =
    JNull
  | JBool bool
  | JNumber rat
  | JString js_string
  | JArray "json list"
  | JObject "(js_string \<times> json) list"

text \<open>The response contract \<open>{status, headers, body?}\<close>; \<open>body = None\<close> is a response without the \<open>body\<close> property.\<close>

record response =
  status :: nat
  headers :: "js_string object"
  body :: "json option"

text \<open>
  A thrown value: \<open>error.code\<close> (\<open>None\<close> when the error carries no code, as a
  \<open>TypeError\<close>, \<open>SyntaxError\<close> or \<open>ReferenceError\<close> of the language),
  \<open>error.cause\<close> and \<open>error.response\<close>. Names and message texts are not modelled.
\<close>

datatype error = Error (code: "js_string option") (cause: cause) (response: "response option")
and cause = NoCause | Text js_string | Reason error | Trace "error list"

definition TypeError :: error where
  "TypeError = Error None NoCause None"

definition SyntaxError :: error where
  "SyntaxError = Error None NoCause None"

definition ReferenceError :: error where
  "ReferenceError = Error None NoCause None"

text \<open>
  \<open>RequestOptions\<close> after \<open>#fetch\<close> merged the defaults. \<open>http_method\<close>,
  \<open>headers_option\<close> and \<open>body_option\<close> are the options' \<open>method\<close>, \<open>headers\<close> and
  \<open>body\<close>; \<open>upstream\<close> holds the
  chunks the caller's readable stream yields and \<open>downstream\<close> says whether a sink was
  supplied. \<open>retry\<close> is a finite number.
\<close>

record options =
  http_method :: js_string
  url :: js_string
  base :: "js_string option"
  headers_option :: "js_string object"
  body_option :: "json option"
  data :: "json option"
  timeout :: nat
  retry :: rat
  retryDelay :: nat
  retryOnStatus :: "nat list"
  retryOnClientTimeout :: bool
  retryOnDownstreamError :: bool
  retryOnInvalidResponseBodyFormat :: bool
  retryOnErrorResponseStatus :: bool
  doNotThrowOnErrorStatus :: bool
  doNotThrowOnRedirectStatus :: bool
  upstream :: "js_string list option"
  downstream :: bool

text \<open>
  The external collaborators the engine consumes: \<open>JSON.parse\<close> (\<open>None\<close> when it
  throws a \<open>SyntaxError\<close>), \<open>JSON.stringify\<close> (\<open>undefined\<close> for \<open>undefined\<close>),
  \<open>querystring.stringify\<close>, and \<open>new URL(input, base).toString()\<close> (\<open>None\<close> when the
  constructor throws).
\<close>

record platform =
  JSON_parse :: "js_string \<Rightarrow> json option"
  JSON_stringify :: "json option \<Rightarrow> js_string option"
  querystring_stringify :: "json option \<Rightarrow> js_string"
  URL_new :: "js_string \<Rightarrow> js_string option \<Rightarrow> js_string option"

text \<open>
  What becomes of the promise of one \<open>#resolve\<close> call: it is fulfilled, it is rejected,
  or (\<open>Uncaught\<close>) a listener of the exchange throws. The engine catches no exception of
  a listener: the exception reaches the event loop and the promise is not settled by it.
\<close>

datatype settlement = Accept response | Reject error | Uncaught error

text \<open>
  The incoming message of a \<open>response\<close> event, with the chunks its \<open>data\<close> events
  deliver; and the event of the transport that decides one exchange. The body stream of
  \<open>Incoming rd\<close> ends after its chunks (\<open>end\<close>); the body stream of
  \<open>Interrupted rd reason\<close> fails with \<open>reason\<close> after its chunks (\<open>error\<close>).
\<close>

record readable =
  statusCode :: nat
  headers_in :: "js_string object"
  chunks :: "js_string list"

datatype event = Close | Failure error | Timeout | Incoming readable | Interrupted readable error

text \<open>What \<open>#resolve\<close> hands to the transport: the protocol, and the request written.\<close>

datatype protocol = HTTP1 | HTTP2

datatype header_value = Str js_string | Num nat

record sent =
  via :: protocol
  sent_method :: js_string
  sent_url :: js_string
  sent_headers :: "header_value object"
  sent_body :: "js_string option"
  piped :: "js_string list option"

text \<open>The state of \<open>this.http2Session\<close>, when there is one.\<close>

record session =
  destroyed :: bool
  closed :: bool

definition startsWith :: "js_string \<Rightarrow> js_string \<Rightarrow> bool" where
  "startsWith s p = (take (length p) s = p)"

section \<open>One resolution attempt (src/index.js)\<close>

text \<open>\<open>#normalizeBody\<close>: a string passes through; otherwise JSON or form encoding by content type.\<close>

definition normalizeBody ::
  "(json option \<Rightarrow> js_string option) \<Rightarrow> (json option \<Rightarrow> js_string) \<Rightarrow> json option \<Rightarrow> js_string option
    \<Rightarrow> js_string option" where
  "normalizeBody stringify form_encode b contentType =
     (case b of
        Some (JString s) \<Rightarrow> Some s
      | _ \<Rightarrow>
          if (case contentType of None \<Rightarrow> False | Some ct \<Rightarrow> startsWith ct ''application/json'')
          then stringify b
          else Some (form_encode b))"

text \<open>
  \<open>#createBodyHeaderDelimiter\<close>: \<open>isStreamed ? {'transfer-encoding': 'chunked'} : {'content-length': body.length}\<close>.
  Reading \<open>.length\<close> of an \<open>undefined\<close> body throws a \<open>TypeError\<close>.
\<close>

definition createBodyHeaderDelimiter :: "js_string option \<Rightarrow> bool \<Rightarrow> error + header_value object" where
  "createBodyHeaderDelimiter b isStreamed =
     (if isStreamed then Inr [(''transfer-encoding'', Str ''chunked'')]
      else case b of
             None \<Rightarrow> Inl TypeError
           | Some s \<Rightarrow> Inr [(''content-length'', Num (length s))])"

text \<open>\<open>#normalizeUrl\<close>: \<open>url ? new URL(url, base).toString() : new URL(base).toString()\<close>.\<close>

definition normalizeUrl ::
  "(js_string \<Rightarrow> js_string option \<Rightarrow> js_string option) \<Rightarrow> js_string \<Rightarrow> js_string option
    \<Rightarrow> js_string option" where
  "normalizeUrl new_URL u b =
     (if u \<noteq> [] then new_URL u b
      else case b of None \<Rightarrow> None | Some b' \<Rightarrow> new_URL b' None)"

text \<open>\<open>#connectionClosed\<close>, \<open>#resolveOnClientError\<close> and \<open>#resolveOnClientTimeout\<close>.\<close>

definition connectionClosed :: settlement where
  "connectionClosed = Reject (Error (Some ''E_HTTP_REQUEST_CLIENT_ERROR'') NoCause None)"

definition resolveOnClientError :: "error \<Rightarrow> settlement" where
  "resolveOnClientError reason =
     (if code reason = Some ''E_HTTP_REQUEST_CLIENT_TIMEOUT'' then Reject reason
      else Reject (Error (Some ''E_HTTP_REQUEST_CLIENT_ERROR'') (Reason reason) None))"

text \<open>The timeout handler destroys the exchange with its error, which the \<open>error\<close> handler receives.\<close>

definition resolveOnClientTimeout :: settlement where
  "resolveOnClientTimeout =
     resolveOnClientError (Error (Some ''E_HTTP_REQUEST_CLIENT_TIMEOUT'') NoCause None)"

text \<open>
  \<open>#onStreamEnd\<close>: a body declared \<open>application/json\<close> is replaced by
  \<open>JSON.parse(response.body || '{}')\<close>; a parse failure rejects with
  \<open>E_HTTP_REQUEST_INVALID_RESPONSE_BODY_FORMAT\<close>, the response keeping its raw body.
  \<open>raw\<close> is the text buffered so far.
\<close>

definition onStreamEnd :: "(js_string \<Rightarrow> json option) \<Rightarrow> response \<Rightarrow> js_string \<Rightarrow> settlement" where
  "onStreamEnd parse resp raw =
     (if (case obj_get (headers resp) ''content-type'' of
            None \<Rightarrow> False | Some ct \<Rightarrow> startsWith ct ''application/json'')
      then (case parse (if raw = [] then ''{}'' else raw) of
              Some v \<Rightarrow> Accept (resp\<lparr>body := Some v\<rparr>)
            | None \<Rightarrow>
                Reject (Error (Some ''E_HTTP_REQUEST_INVALID_RESPONSE_BODY_FORMAT'')
                          (Reason SyntaxError) (Some (resp\<lparr>body := Some (JString raw)\<rparr>))))
      else Accept (resp\<lparr>body := Some (JString raw)\<rparr>))"

text \<open>
  \<open>#onStreamError\<close>, the listener of the body stream's \<open>error\<close> event, builds an
  \<open>E_HTTP_REQUEST_DOWNSTREAM_ERROR\<close> failure and calls \<open>reject(error)\<close>; no \<open>reject\<close> is
  in scope there (the function takes \<open>method, url, response, reason\<close>), so the call
  throws a \<open>ReferenceError\<close> out of the listener.
\<close>

definition onStreamError :: "error \<Rightarrow> settlement" where
  "onStreamError reason = Uncaught ReferenceError"

text \<open>
  \<open>#bufferResponseBody\<close>: \<open>response.body = ''\<close> and the three listeners of the body
  stream. For a stream that ends, every chunk is appended, then \<open>#onStreamEnd\<close> runs;
  for a stream that fails (\<open>bufferResponseBody_error\<close>), \<open>#onStreamError\<close> runs.
\<close>

definition bufferResponseBody ::
  "(js_string \<Rightarrow> json option) \<Rightarrow> readable \<Rightarrow> response \<Rightarrow> settlement" where
  "bufferResponseBody parse rd resp = onStreamEnd parse resp (foldl (@) [] (chunks rd))"

definition bufferResponseBody_error :: "readable \<Rightarrow> error \<Rightarrow> response \<Rightarrow> settlement" where
  "bufferResponseBody_error rd reason resp = onStreamError reason"

text \<open>
  \<open>#resolveOnResponse\<close> for a response whose body stream ends. On a gated status the
  body is still buffered; the error's \<open>response\<close> is the very object the buffering
  fills, and a failed buffering becomes the error's \<open>cause\<close>. The attempt is rejected in
  the \<open>finally\<close> callback of the buffering's promise, which runs once that promise is
  settled.
\<close>

definition resolveOnResponse ::
  "(js_string \<Rightarrow> json option) \<Rightarrow> options \<Rightarrow> readable \<Rightarrow> settlement" where
  "resolveOnResponse parse opts rd =
     (let resp = \<lparr>status = statusCode rd, headers = headers_in rd, body = None\<rparr>
      in if (status resp \<ge> 400 \<and> \<not> doNotThrowOnErrorStatus opts)
          \<or> (status resp \<ge> 300 \<and> \<not> doNotThrowOnRedirectStatus opts \<and> status resp < 400)
         then (case bufferResponseBody parse rd resp of
                 Accept filled \<Rightarrow>
                   Reject (Error (Some ''E_HTTP_REQUEST_INVALID_RESPONSE_STATUS'') NoCause (Some filled))
               | Reject reason \<Rightarrow>
                   Reject (Error (Some ''E_HTTP_REQUEST_INVALID_RESPONSE_STATUS'') (Reason reason)
                             (response reason))
               | Uncaught thrown \<Rightarrow> Uncaught thrown)
         else if downstream opts then Accept resp
         else bufferResponseBody parse rd resp)"

text \<open>
  \<open>#resolveOnResponse\<close> for a response whose body stream fails. On a gated status the
  inner promise of the buffering is never settled, so its \<open>finally\<close> callback, which
  rejects the attempt, never runs. With a sink the attempt is accepted before the stream
  is read. The same holds in the later revision, where the function reads the same.
\<close>

definition resolveOnResponse_interrupted :: "options \<Rightarrow> readable \<Rightarrow> error \<Rightarrow> settlement" where
  "resolveOnResponse_interrupted opts rd reason =
     (let resp = \<lparr>status = statusCode rd, headers = headers_in rd, body = None\<rparr>
      in if (status resp \<ge> 400 \<and> \<not> doNotThrowOnErrorStatus opts)
          \<or> (status resp \<ge> 300 \<and> \<not> doNotThrowOnRedirectStatus opts \<and> status resp < 400)
         then (case bufferResponseBody_error rd reason resp of
                 Accept filled \<Rightarrow>
                   Reject (Error (Some ''E_HTTP_REQUEST_INVALID_RESPONSE_STATUS'') NoCause (Some filled))
               | Reject reason' \<Rightarrow>
                   Reject (Error (Some ''E_HTTP_REQUEST_INVALID_RESPONSE_STATUS'') (Reason reason')
                             (response reason'))
               | Uncaught thrown \<Rightarrow> Uncaught thrown)
         else if downstream opts then Accept resp
         else bufferResponseBody_error rd reason resp)"

text \<open>How the handlers wired by \<open>#resolveHttp1Client\<close> and \<open>#resolveHttp2Client\<close> settle the promise.\<close>

definition on_event :: "(js_string \<Rightarrow> json option) \<Rightarrow> options \<Rightarrow> event \<Rightarrow> settlement" where
  "on_event parse opts ev =
     (case ev of
        Close \<Rightarrow> connectionClosed
      | Failure reason \<Rightarrow> resolveOnClientError reason
      | Timeout \<Rightarrow> resolveOnClientTimeout
      | Incoming rd \<Rightarrow> resolveOnResponse parse opts rd
      | Interrupted rd reason \<Rightarrow> resolveOnResponse_interrupted opts rd reason)"

text \<open>
  \<open>#resolveHttp1Client\<close> and \<open>#resolveHttp2Client\<close> create the exchange with the
  normalized headers and wire the handlers; over a session the \<open>transfer-encoding\<close>
  header is deleted first. The result is the settlement the handlers produce and the
  request handed to the transport (its body is written by \<open>#resolve\<close> afterwards).

  \<open>#resolveHttp1Client\<close> chooses by \<open>url.protocol === 'https:'\<close>, where \<open>url\<close> is the
  string \<open>#normalizeUrl\<close> returned: the property is \<open>undefined\<close> and the choice is always
  \<open>http.request\<close>, which throws \<open>ERR_INVALID_PROTOCOL\<close> for a URL of another
  protocol than \<open>http:\<close> before any request exists; the throw rejects the promise.
\<close>

definition resolveHttp1Client ::
  "(js_string \<Rightarrow> json option) \<Rightarrow> options \<Rightarrow> header_value object \<Rightarrow> js_string \<Rightarrow> event \<Rightarrow> settlement \<times> sent list" where
  "resolveHttp1Client parse opts hdrs u ev =
     (if startsWith u ''http:''
      then (on_event parse opts ev,
            [\<lparr>via = HTTP1, sent_method = http_method opts, sent_url = u, sent_headers = hdrs,
              sent_body = None, piped = None\<rparr>])
      else (Reject (Error (Some ''ERR_INVALID_PROTOCOL'') NoCause None), []))"

text \<open>
  \<open>#resolveHttp2Client\<close> does not read the state of the session: it calls
  \<open>this.http2Session.request\<close>, which throws \<open>ERR_HTTP2_INVALID_SESSION\<close> on a destroyed
  session and \<open>ERR_HTTP2_GOAWAY_SESSION\<close> on a closed one, before any stream exists; the
  throw rejects the promise.
\<close>

definition resolveHttp2Client ::
  "(js_string \<Rightarrow> json option) \<Rightarrow> session \<Rightarrow> options \<Rightarrow> header_value object \<Rightarrow> js_string \<Rightarrow> event
    \<Rightarrow> settlement \<times> sent list" where
  "resolveHttp2Client parse http2Session opts hdrs u ev =
     (if destroyed http2Session
      then (Reject (Error (Some ''ERR_HTTP2_INVALID_SESSION'') NoCause None), [])
      else if closed http2Session
      then (Reject (Error (Some ''ERR_HTTP2_GOAWAY_SESSION'') NoCause None), [])
      else (on_event parse opts ev,
            [\<lparr>via = HTTP2, sent_method = http_method opts, sent_url = u,
              sent_headers = obj_delete ''transfer-encoding'' hdrs,
              sent_body = None, piped = None\<rparr>]))"

text \<open>
  \<open>options.upstream ? options.upstream.pipe(upstream) : upstream.writable && upstream.end(body)\<close>.
\<close>

definition write_body :: "options \<Rightarrow> js_string option \<Rightarrow> sent \<Rightarrow> sent" where
  "write_body opts b w =
     (if upstream opts \<noteq> None then w\<lparr>piped := upstream opts\<rparr> else w\<lparr>sent_body := b\<rparr>)"

text \<open>
  \<open>#resolve\<close>. A throw inside the promise executor rejects the promise, and nothing
  after the throw is run. The result is the settlement and the requests handed to the
  transport.
\<close>

definition resolve ::
  "platform \<Rightarrow> session option \<Rightarrow> options \<Rightarrow> event \<Rightarrow> settlement \<times> sent list" where
  "resolve pf http2Session opts ev =
     (let hdrs = normalizeHeaders (headers_option opts);
          b = normalizeBody (JSON_stringify pf) (querystring_stringify pf)
                (case body_option opts of None \<Rightarrow> data opts | Some JNull \<Rightarrow> data opts | Some v \<Rightarrow> Some v)
                (obj_get hdrs ''content-type'')
      in case createBodyHeaderDelimiter b (upstream opts \<noteq> None \<or> http2Session \<noteq> None) of
           Inl e \<Rightarrow> (Reject e, [])
         | Inr delimiter \<Rightarrow>
             (case normalizeUrl (URL_new pf) (url opts) (base opts) of
                None \<Rightarrow> (Reject (Error (Some ''ERR_INVALID_URL'') NoCause None), [])
              | Some u \<Rightarrow>
                  (let hdrs' = Object_assign (map (\<lambda>(k, v). (k, Str v)) hdrs) delimiter;
                       (settled, wire) =
                         (case http2Session of
                            Some s \<Rightarrow> resolveHttp2Client (JSON_parse pf) s opts hdrs' u ev
                          | None \<Rightarrow> resolveHttp1Client (JSON_parse pf) opts hdrs' u ev)
                   in (settled, map (write_body opts b) wire))))"

section \<open>Retry Engine (src/index.js)\<close>

text \<open>
  What the caller of the loop observes, and a journal of what the loop did: the number
  of \<open>#resolve\<close> calls, the \<open>errorTrace\<close> array and the delays it awaited.
  \<open>Pending\<close>: the call neither returns nor throws, because the attempt it awaits is
  never settled.
\<close>

datatype outcome = Returned response | Thrown error | ThrownUndefined | ReturnedUndefined | Pending error

record journal =
  attempts :: nat
  errorTrace :: "error list"
  waits :: "nat list"

text \<open>
  \<open>#resolveRetryLoopError\<close>: \<open>Inr\<close> is the trace after \<open>errorTrace.push(error)\<close>,
  \<open>Inl\<close> the value thrown. Reading \<open>error.response.status\<close> of an error without a
  response throws a \<open>TypeError\<close>.
\<close>

definition resolveRetryLoopError :: "options \<Rightarrow> error list \<Rightarrow> error \<Rightarrow> error + error list" where
  "resolveRetryLoopError opts trace err =
     (if code err = Some ''E_HTTP_REQUEST_CLIENT_ERROR'' then Inr (trace @ [err])
      else if code err = Some ''E_HTTP_REQUEST_CLIENT_TIMEOUT'' then
        (if retryOnClientTimeout opts then Inr (trace @ [err]) else Inl err)
      else if code err = Some ''E_HTTP_REQUEST_DOWNSTREAM_ERROR'' then
        (if retryOnDownstreamError opts then Inr (trace @ [err]) else Inl err)
      else if code err = Some ''E_HTTP_REQUEST_INVALID_RESPONSE_BODY_FORMAT'' then
        (if retryOnInvalidResponseBodyFormat opts then Inr (trace @ [err]) else Inl err)
      else if code err = Some ''E_HTTP_REQUEST_INVALID_RESPONSE_STATUS'' then
        (if retryOnErrorResponseStatus opts then Inr (trace @ [err])
         else case response err of
                None \<Rightarrow> Inl TypeError
              | Some r \<Rightarrow>
                  if status r \<in> set (retryOnStatus opts) then Inr (trace @ [err]) else Inl err)
      else Inl err)"

text \<open>
  The \<open>while(retry--)\<close> loop of \<open>#resolveRetryLoop\<close>: the test reads the counter and
  decrements it, so the body entered with the counter \<open>Suc retry'\<close> sees \<open>retry'\<close>. \<open>settle i\<close> is how
  the \<open>i\<close>-th call of \<open>#resolve\<close> settles. Falling out of the loop returns \<open>undefined\<close>.
  The \<open>await\<close> of an attempt that is never settled does not resume.
\<close>

fun resolveRetryLoop_while ::
  "options \<Rightarrow> (nat \<Rightarrow> settlement) \<Rightarrow> nat \<Rightarrow> journal \<Rightarrow> outcome \<times> journal" where
  "resolveRetryLoop_while opts settle 0 j = (ReturnedUndefined, j)"
| "resolveRetryLoop_while opts settle (Suc retry') j =
     (let j' = j\<lparr>attempts := Suc (attempts j)\<rparr>
      in case settle (attempts j) of
           Accept resp \<Rightarrow>
             if status resp \<ge> 400 \<and> retry' > 0
                \<and> (status resp \<in> set (retryOnStatus opts) \<or> retryOnErrorResponseStatus opts)
             then resolveRetryLoop_while opts settle retry' j'
             else (Returned resp, j')
         | Reject err \<Rightarrow>
             if retry' = 0 then (Thrown err, j')
             else (case resolveRetryLoopError opts (errorTrace j') err of
                     Inl thrown \<Rightarrow> (Thrown thrown, j')
                   | Inr trace \<Rightarrow>
                       resolveRetryLoop_while opts settle retry'
                         (j'\<lparr>errorTrace := trace, waits := waits j' @ [retryDelay opts]\<rparr>))
         | Uncaught thrown \<Rightarrow> (Pending thrown, j'))"

text \<open>\<open>let retry = Math.abs(Math.floor(options.retry))\<close>, an empty \<open>errorTrace\<close>.\<close>

definition resolveRetryLoop :: "options \<Rightarrow> (nat \<Rightarrow> settlement) \<Rightarrow> outcome \<times> journal" where
  "resolveRetryLoop opts settle =
     resolveRetryLoop_while opts settle (nat \<bar>\<lfloor>retry opts\<rfloor>\<bar>)
       \<lparr>attempts = 0, errorTrace = [], waits = []\<rparr>"

text \<open>
  The dispatch at the end of \<open>#fetch\<close>:
  \<open>options.retry ? this.#resolveRetryLoop(options) : this.#resolve(options)\<close>.
\<close>

definition fetch :: "options \<Rightarrow> (nat \<Rightarrow> settlement) \<Rightarrow> outcome \<times> journal" where
  "fetch opts settle =
     (if retry opts \<noteq> 0 then resolveRetryLoop opts settle
      else ((case settle 0 of
               Accept resp \<Rightarrow> Returned resp
             | Reject err \<Rightarrow> Thrown err
             | Uncaught thrown \<Rightarrow> Pending thrown),
            \<lparr>attempts = 1, errorTrace = [], waits = []\<rparr>))"

text \<open>The defaults \<open>#fetch\<close> merges under the caller's options, for the method \<open>m\<close>; absent flags read as false.\<close>

definition defaults :: "js_string \<Rightarrow> options" where
  "defaults m =
     \<lparr>http_method = m, url = [], base = None, headers_option = [], body_option = None, data = None,
      timeout = 30000, retry = 3, retryDelay = 200, retryOnStatus = [],
      retryOnClientTimeout = False, retryOnDownstreamError = False,
      retryOnInvalidResponseBodyFormat = False, retryOnErrorResponseStatus = False,
      doNotThrowOnErrorStatus = False, doNotThrowOnRedirectStatus = False,
      upstream = None, downstream = False\<rparr>"

section \<open>The later revision of the engine (src/unnamed/part_000, lines 352-1171)\<close>

text \<open>
  The file \<open>src/unnamed/part_000\<close> holds later revisions of \<open>index.js\<close>. The functions
  below are the ones of its first copy that differ from \<open>src/index.js\<close>, "the
  revision" below. In its second copy (lines 1172-2032) the session guard of
  \<open>#resolveHttp2Client\<close> and the whole Response Resolver (\<open>#resolveOnResponse\<close>,
  \<open>#bufferResponseBody\<close>, \<open>#onStreamError\<close>, \<open>#onStreamEnd\<close> and the two content-type
  decoders) read the same, the \<open>accept\<close> of the promise being named \<open>resolve\<close>.
\<close>

subsection \<open>String primitives of the event-stream decoder\<close>

text \<open>The white space and line terminators \<open>String.prototype.trim\<close> strips, among the code units below 0x100.\<close>

definition is_space :: "char \<Rightarrow> bool" where
  "is_space c = ((of_char c :: nat) \<in> {9, 10, 11, 12, 13, 32, 160})"

definition trim :: "js_string \<Rightarrow> js_string" where
  "trim s = rev (dropWhile is_space (rev (dropWhile is_space s)))"

text \<open>
  \<open>s.split(sep)\<close> for a string separator: the pieces between the occurrences of \<open>sep\<close>,
  found from the left without overlap; an empty separator splits into code units.
  \<open>cur\<close> is the piece being read.
\<close>

function split_from :: "js_string \<Rightarrow> js_string \<Rightarrow> js_string \<Rightarrow> js_string list" where
  "split_from sep cur s =
     (if s = [] then (if sep = [] \<and> cur = [] then [] else [cur])
      else if sep = [] then (if cur = [] then [] else [cur]) @ split_from sep [hd s] (tl s)
      else if take (length sep) s = sep then cur # split_from sep [] (drop (length sep) s)
      else split_from sep (cur @ [hd s]) (tl s))"
  by pat_completeness auto
termination
  by (relation "measure (\<lambda>(sep, cur, s). length s)") auto

definition split :: "js_string \<Rightarrow> js_string \<Rightarrow> js_string list" where
  "split s sep = split_from sep [] s"

text \<open>\<open>s.indexOf(c)\<close> for one code unit, and \<open>s.slice(start, end)\<close> with its negative indices.\<close>

definition indexOf :: "js_string \<Rightarrow> char \<Rightarrow> int" where
  "indexOf s c = (if c \<in> set s then int (length (takeWhile (\<lambda>x. x \<noteq> c) s)) else - 1)"

definition slice :: "js_string \<Rightarrow> int \<Rightarrow> int option \<Rightarrow> js_string" where
  "slice s start stop =
     (let len = int (length s);
          from = (if start < 0 then max (len + start) 0 else min start len);
          to = (case stop of
                  None \<Rightarrow> len
                | Some e \<Rightarrow> if e < 0 then max (len + e) 0 else min e len)
      in take (nat (to - from)) (drop (nat from) s))"

text \<open>\<open>Object.fromEntries\<close>: the entries are defined in order on an empty object.\<close>

definition Object_fromEntries :: "(js_string \<times> 'v) list \<Rightarrow> 'v object" where
  "Object_fromEntries entries = foldl (\<lambda>obj (k, v). obj_define k v obj) [] entries"

subsection \<open>Response Resolver\<close>

text \<open>\<open>#contentTypeApplicationJson\<close>: a parse failure is rethrown as a \<open>TypeError\<close> with the cause.\<close>

definition contentTypeApplicationJson :: "(js_string \<Rightarrow> json option) \<Rightarrow> js_string \<Rightarrow> error + json" where
  "contentTypeApplicationJson parse raw =
     (case parse (if raw = [] then ''{}'' else raw) of
        Some v \<Rightarrow> Inr v
      | None \<Rightarrow> Inl (Error None (Reason SyntaxError) None))"

text \<open>
  \<open>#contentTypeTextEventStream\<close>, and the entry its inner callback makes of one field:
  the name before the first colon, the trimmed text after it, parsed as JSON when it parses.
\<close>

definition event_field :: "(js_string \<Rightarrow> json option) \<Rightarrow> js_string \<Rightarrow> js_string \<times> json" where
  "event_field parse field =
     (let separator = indexOf field CHR '':'';
          param = slice field 0 (Some separator);
          v = trim (slice field (separator + 1) None)
      in case parse v of
           Some parsed \<Rightarrow> (param, parsed)
         | None \<Rightarrow> (param, JString v))"

definition contentTypeTextEventStream :: "(js_string \<Rightarrow> json option) \<Rightarrow> js_string \<Rightarrow> json" where
  "contentTypeTextEventStream parse raw =
     JArray (map (\<lambda>fields. JObject (Object_fromEntries (map (event_field parse) (split fields [CHR 0x0A]))))
               (split (trim raw) [CHR 0x0A, CHR 0x0A]))"

text \<open>\<open>#onStreamEnd\<close> of the revision: the decoder is chosen by the content type's prefix.\<close>

definition onStreamEnd_rev2 :: "(js_string \<Rightarrow> json option) \<Rightarrow> response \<Rightarrow> js_string \<Rightarrow> settlement" where
  "onStreamEnd_rev2 parse resp raw =
     (case obj_get (headers resp) ''content-type'' of
        None \<Rightarrow> Accept (resp\<lparr>body := Some (JString raw)\<rparr>)
      | Some contentType \<Rightarrow>
          if startsWith contentType ''application/json''
          then (case contentTypeApplicationJson parse raw of
                  Inr v \<Rightarrow> Accept (resp\<lparr>body := Some v\<rparr>)
                | Inl reason \<Rightarrow>
                    Reject (Error (Some ''E_HTTP_REQUEST_INVALID_RESPONSE_BODY_FORMAT'')
                              (Reason reason) (Some (resp\<lparr>body := Some (JString raw)\<rparr>))))
          else if startsWith contentType ''text/event-stream''
          then Accept (resp\<lparr>body := Some (contentTypeTextEventStream parse raw)\<rparr>)
          else Accept (resp\<lparr>body := Some (JString raw)\<rparr>))"

definition bufferResponseBody_rev2 ::
  "(js_string \<Rightarrow> json option) \<Rightarrow> readable \<Rightarrow> response \<Rightarrow> settlement" where
  "bufferResponseBody_rev2 parse rd resp = onStreamEnd_rev2 parse resp (foldl (@) [] (chunks rd))"

definition resolveOnResponse_rev2 ::
  "(js_string \<Rightarrow> json option) \<Rightarrow> options \<Rightarrow> readable \<Rightarrow> settlement" where
  "resolveOnResponse_rev2 parse opts rd =
     (let resp = \<lparr>status = statusCode rd, headers = headers_in rd, body = None\<rparr>
      in if (status resp \<ge> 400 \<and> \<not> doNotThrowOnErrorStatus opts)
          \<or> (status resp \<ge> 300 \<and> \<not> doNotThrowOnRedirectStatus opts \<and> status resp < 400)
         then (case bufferResponseBody_rev2 parse rd resp of
                 Accept filled \<Rightarrow>
                   Reject (Error (Some ''E_HTTP_REQUEST_INVALID_RESPONSE_STATUS'') NoCause (Some filled))
               | Reject reason \<Rightarrow>
                   Reject (Error (Some ''E_HTTP_REQUEST_INVALID_RESPONSE_STATUS'') (Reason reason)
                             (response reason))
               | Uncaught thrown \<Rightarrow> Uncaught thrown)
         else if downstream opts then Accept resp
         else bufferResponseBody_rev2 parse rd resp)"

definition on_event_rev2 :: "(js_string \<Rightarrow> json option) \<Rightarrow> options \<Rightarrow> event \<Rightarrow> settlement" where
  "on_event_rev2 parse opts ev =
     (case ev of
        Close \<Rightarrow> connectionClosed
      | Failure reason \<Rightarrow> resolveOnClientError reason
      | Timeout \<Rightarrow> resolveOnClientTimeout
      | Incoming rd \<Rightarrow> resolveOnResponse_rev2 parse opts rd
      | Interrupted rd reason \<Rightarrow> resolveOnResponse_interrupted opts rd reason)"

subsection \<open>Transport Dispatcher\<close>

text \<open>\<open>#createBodyHeaderDelimiter\<close> of the revision: \<open>{'content-length': body?.length || 0}\<close>.\<close>

definition createBodyHeaderDelimiter_rev2 :: "js_string option \<Rightarrow> bool \<Rightarrow> header_value object" where
  "createBodyHeaderDelimiter_rev2 b isStreamed =
     (if isStreamed then [(''transfer-encoding'', Str ''chunked'')]
      else [(''content-length'', Num (case b of None \<Rightarrow> 0 | Some s \<Rightarrow> length s))])"

text \<open>
  \<open>#resolveHttp1Client\<close> of the revision chooses by \<open>url.startsWith('https:')\<close> between
  \<open>https.request\<close> and \<open>http.request\<close>; the latter throws \<open>ERR_INVALID_PROTOCOL\<close>
  for a URL that is neither of the two protocols.
\<close>

definition resolveHttp1Client_rev2 ::
  "(js_string \<Rightarrow> json option) \<Rightarrow> options \<Rightarrow> header_value object \<Rightarrow> js_string \<Rightarrow> event \<Rightarrow> settlement \<times> sent list" where
  "resolveHttp1Client_rev2 parse opts hdrs u ev =
     (if startsWith u ''https:'' \<or> startsWith u ''http:''
      then (on_event_rev2 parse opts ev,
            [\<lparr>via = HTTP1, sent_method = http_method opts, sent_url = u, sent_headers = hdrs,
              sent_body = None, piped = None\<rparr>])
      else (Reject (Error (Some ''ERR_INVALID_PROTOCOL'') NoCause None), []))"

text \<open>
  \<open>#resolveHttp2Client\<close> of the revision: a destroyed, then a closed session rejects and
  returns before any stream is requested. The function then returns \<open>undefined\<close>, and
  writing the body to it throws in the executor of a promise that is already rejected.
\<close>

definition resolveHttp2Client_rev2 ::
  "(js_string \<Rightarrow> json option) \<Rightarrow> session \<Rightarrow> options \<Rightarrow> header_value object \<Rightarrow> js_string \<Rightarrow> event
    \<Rightarrow> settlement \<times> sent list" where
  "resolveHttp2Client_rev2 parse http2Session opts hdrs u ev =
     (if destroyed http2Session
      then (Reject (Error (Some ''E_HTTP_REQUEST_HTTP2_SESSION_DESTROYED'')
                      (Text (''Can not perform request over a destroyed HTTP2 session to: '' @ u)) None), [])
      else if closed http2Session
      then (Reject (Error (Some ''E_HTTP_REQUEST_HTTP2_SESSION_CLOSED'')
                      (Text (''Can not perform request over a closed HTTP2 session to: '' @ u)) None), [])
      else (on_event_rev2 parse opts ev,
            [\<lparr>via = HTTP2, sent_method = http_method opts, sent_url = u,
              sent_headers = obj_delete ''transfer-encoding'' hdrs,
              sent_body = None, piped = None\<rparr>]))"

text \<open>\<open>#resolve\<close> of the revision. Once the promise is rejected, nothing after it settles it again.\<close>

definition resolve_rev2 ::
  "platform \<Rightarrow> session option \<Rightarrow> options \<Rightarrow> event \<Rightarrow> settlement \<times> sent list" where
  "resolve_rev2 pf http2Session opts ev =
     (let hdrs = normalizeHeaders (headers_option opts);
          b = normalizeBody (JSON_stringify pf) (querystring_stringify pf)
                (case body_option opts of None \<Rightarrow> data opts | Some JNull \<Rightarrow> data opts | Some v \<Rightarrow> Some v)
                (obj_get hdrs ''content-type'');
          delimiter = createBodyHeaderDelimiter_rev2 b (upstream opts \<noteq> None \<or> http2Session \<noteq> None)
      in case normalizeUrl (URL_new pf) (url opts) (base opts) of
           None \<Rightarrow> (Reject (Error (Some ''ERR_INVALID_URL'') NoCause None), [])
         | Some u \<Rightarrow>
             (let hdrs' = Object_assign (map (\<lambda>(k, v). (k, Str v)) hdrs) delimiter;
                  (settled, wire) =
                    (case http2Session of
                       Some s \<Rightarrow> resolveHttp2Client_rev2 (JSON_parse pf) s opts hdrs' u ev
                     | None \<Rightarrow> resolveHttp1Client_rev2 (JSON_parse pf) opts hdrs' u ev)
              in (settled, map (write_body opts b) wire)))"

subsection \<open>Retry Engine\<close>

text \<open>
  The journal also counts the calls of \<open>reconnect()\<close>; \<open>reconnect k\<close> is \<open>None\<close> when the
  \<open>k\<close>-th call succeeds and the reason it throws otherwise.
\<close>

record journal_rev2 = journal +
  reconnects :: nat

text \<open>
  \<open>#resolveRetryLoopError\<close> of the revision. The two session codes share one case; when
  the reconnect fails the handler builds a reconnect error and throws the reason.
\<close>

definition resolveRetryLoopError_rev2 ::
  "options \<Rightarrow> (nat \<Rightarrow> error option) \<Rightarrow> journal_rev2 \<Rightarrow> error \<Rightarrow> error + journal_rev2" where
  "resolveRetryLoopError_rev2 opts reconnect j err =
     (let push = Inr (j\<lparr>errorTrace := errorTrace j @ [err]\<rparr>)
      in if code err = Some ''E_HTTP_REQUEST_CLIENT_ERROR'' then push
         else if code err = Some ''E_HTTP_REQUEST_HTTP2_SESSION_DESTROYED''
               \<or> code err = Some ''E_HTTP_REQUEST_HTTP2_SESSION_CLOSED'' then
           (case reconnect (reconnects j) of
              Some reason \<Rightarrow> Inl reason
            | None \<Rightarrow> Inr (j\<lparr>errorTrace := errorTrace j @ [err], reconnects := Suc (reconnects j)\<rparr>))
         else if code err = Some ''E_HTTP_REQUEST_CLIENT_TIMEOUT'' then
           (if retryOnClientTimeout opts then push else Inl err)
         else if code err = Some ''E_HTTP_REQUEST_DOWNSTREAM_ERROR'' then
           (if retryOnDownstreamError opts then push else Inl err)
         else if code err = Some ''E_HTTP_REQUEST_INVALID_RESPONSE_BODY_FORMAT'' then
           (if retryOnInvalidResponseBodyFormat opts then push else Inl err)
         else if code err = Some ''E_HTTP_REQUEST_INVALID_RESPONSE_STATUS'' then
           (if retryOnErrorResponseStatus opts then push
            else case response err of
                   None \<Rightarrow> Inl TypeError
                 | Some r \<Rightarrow> if status r \<in> set (retryOnStatus opts) then push else Inl err)
         else Inl err)"

text \<open>
  The statements after the loop: \<open>errorTrace.every(...)\<close> holds of an empty trace, whose
  \<open>pop()\<close> is \<open>undefined\<close>; otherwise the last failure, or the aggregate with the trace
  as its cause.
\<close>

definition after_loop_rev2 :: "journal_rev2 \<Rightarrow> outcome \<times> journal_rev2" where
  "after_loop_rev2 j =
     (if list_all (\<lambda>error. code error = code (errorTrace j ! 0)) (errorTrace j)
      then ((case errorTrace j of [] \<Rightarrow> ThrownUndefined | _ \<Rightarrow> Thrown (last (errorTrace j))),
            j\<lparr>errorTrace := butlast (errorTrace j)\<rparr>)
      else (Thrown (Error (Some ''E_HTTP_REQUEST_RETRY_ERROR'') (Trace (errorTrace j)) None), j))"

fun resolveRetryLoop_while_rev2 ::
  "options \<Rightarrow> (nat \<Rightarrow> settlement) \<Rightarrow> (nat \<Rightarrow> error option) \<Rightarrow> nat \<Rightarrow> journal_rev2
    \<Rightarrow> outcome \<times> journal_rev2" where
  "resolveRetryLoop_while_rev2 opts settle reconnect 0 j = after_loop_rev2 j"
| "resolveRetryLoop_while_rev2 opts settle reconnect (Suc retry') j =
     (let j' = j\<lparr>attempts := Suc (attempts j)\<rparr>
      in case settle (attempts j) of
           Accept resp \<Rightarrow>
             if status resp \<ge> 400 \<and> retry' > 0
                \<and> (status resp \<in> set (retryOnStatus opts) \<or> retryOnErrorResponseStatus opts)
             then resolveRetryLoop_while_rev2 opts settle reconnect retry' j'
             else (Returned resp, j')
         | Reject err \<Rightarrow>
             if retry' = 0 then (Thrown err, j')
             else (case resolveRetryLoopError_rev2 opts reconnect j' err of
                     Inl thrown \<Rightarrow> (Thrown thrown, j')
                   | Inr j'' \<Rightarrow>
                       resolveRetryLoop_while_rev2 opts settle reconnect retry'
                         (j''\<lparr>waits := waits j'' @ [retryDelay opts]\<rparr>))
         | Uncaught thrown \<Rightarrow> (Pending thrown, j'))"

text \<open>\<open>let retry = Math.abs(Math.floor(options.retry)) + 1\<close>.\<close>

definition resolveRetryLoop_rev2 ::
  "options \<Rightarrow> (nat \<Rightarrow> settlement) \<Rightarrow> (nat \<Rightarrow> error option) \<Rightarrow> outcome \<times> journal_rev2" where
  "resolveRetryLoop_rev2 opts settle reconnect =
     resolveRetryLoop_while_rev2 opts settle reconnect (nat \<bar>\<lfloor>retry opts\<rfloor>\<bar> + 1)
       \<lparr>attempts = 0, errorTrace = [], waits = [], reconnects = 0\<rparr>"

section \<open>Notions the properties are stated with\<close>


text \<open>
  The retry policy in the words of the specification, by failure kind: a client error
  always; a timeout, a downstream error and a body-format failure by their flags; a
  status failure by its flag or by the membership of the failing status in
  \<open>retryOnStatus\<close>.
\<close>

definition retryable :: "options \<Rightarrow> error \<Rightarrow> bool" where
  "retryable opts err =
     (code err = Some ''E_HTTP_REQUEST_CLIENT_ERROR''
      \<or> (code err = Some ''E_HTTP_REQUEST_CLIENT_TIMEOUT'' \<and> retryOnClientTimeout opts)
      \<or> (code err = Some ''E_HTTP_REQUEST_DOWNSTREAM_ERROR'' \<and> retryOnDownstreamError opts)
      \<or> (code err = Some ''E_HTTP_REQUEST_INVALID_RESPONSE_BODY_FORMAT''
          \<and> retryOnInvalidResponseBodyFormat opts)
      \<or> (code err = Some ''E_HTTP_REQUEST_INVALID_RESPONSE_STATUS''
          \<and> (retryOnErrorResponseStatus opts
              \<or> (case response err of
                    None \<Rightarrow> False
                  | Some r \<Rightarrow> status r \<in> set (retryOnStatus opts)))))"

text \<open>
  The upper-case letters among the code units below 0x100: A-Z, and 0xC0-0xDE without
  the multiplication sign 0xD7. A lower-case key holds none of them.
\<close>

definition is_upper_case :: "char \<Rightarrow> bool" where
  "is_upper_case c =
     ((65 \<le> (of_char c :: nat) \<and> (of_char c :: nat) \<le> 90)
      \<or> (192 \<le> (of_char c :: nat) \<and> (of_char c :: nat) \<le> 222 \<and> (of_char c :: nat) \<noteq> 215))"

text \<open>
  \<open>parts.join(sep)\<close>: the text whose pieces between the occurrences of \<open>sep\<close> are
  \<open>parts\<close>. The body of an event stream is stated with it: the fields of an event
  joined by a line feed, the events joined by a blank line (two line feeds).
\<close>

fun join :: "js_string \<Rightarrow> js_string list \<Rightarrow> js_string" where
  "join sep [] = []"
| "join sep [x] = x"
| "join sep (x # y # xs) = x @ sep @ join sep (y # xs)"

text \<open>
  The number of bytes the transport writes for a string body (UTF-8, the encoding
  \<open>end(body)\<close> uses): one for a code unit below 0x80, two for the others of the range.
\<close>

definition utf8_length :: "js_string \<Rightarrow> nat" where
  "utf8_length s = sum_list (map (\<lambda>c. if (of_char c :: nat) < 128 then 1 else 2) s)"

text \<open>
  A stand-in for \<open>JSON.parse\<close> in the closed examples. It agrees with \<open>JSON.parse\<close> on
  the text \<open>{}\<close>, on unsigned decimal integers without a leading zero (small enough to
  be exact as a number), and on texts that begin with a letter other than \<open>t\<close>, \<open>f\<close>
  and \<open>n\<close>, which both reject; the examples use it on such texts only.
\<close>

definition sample_parse :: "js_string \<Rightarrow> json option" where
  "sample_parse s =
     (if s = ''{}'' then Some (JObject [])
      else if s \<noteq> [] \<and> list_all (\<lambda>c. 48 \<le> (of_char c :: nat) \<and> (of_char c :: nat) \<le> 57) s
              \<and> (length s = 1 \<or> hd s \<noteq> CHR ''0'')
      then Some (JNumber (of_nat (foldl (\<lambda>n c. 10 * n + (of_char c - 48)) 0 s)))
      else None)"

text \<open>
  The collaborators of the closed examples: the stand-in above for \<open>JSON.parse\<close>;
  \<open>JSON.stringify\<close> and \<open>querystring.stringify\<close> as they answer an absent body
  (\<open>undefined\<close> and the empty string), the examples sending a string body or none; and a
  URL constructor that returns its input, as \<open>new URL(url, base).toString()\<close> does for
  the absolute URLs of the examples.
\<close>

definition sample_platform :: platform where
  "sample_platform =
     \<lparr>JSON_parse = sample_parse, JSON_stringify = (\<lambda>b. None),
      querystring_stringify = (\<lambda>b. []), URL_new = (\<lambda>u b. Some u)\<rparr>"

section \<open>Header normalization\<close>

subsection \<open>Array indices\<close>

lemma foldl_digits:
  "foldl (\<lambda>n c. 10 * n + (of_char c - 48)) (m::nat) k
     = m * 10 ^ length k + foldl (\<lambda>n c. 10 * n + (of_char c - 48)) 0 k"
proof (induction k arbitrary: m)
  case Nil
  then show ?case by simp
next
  case (Cons c k)
  let ?f = "\<lambda>(n::nat) c. 10 * n + (of_char c - 48)"
  have a: "foldl ?f (10 * m + (of_char c - 48)) k
             = (10 * m + (of_char c - 48)) * 10 ^ length k + foldl ?f 0 k"
    by (rule Cons.IH)
  have b: "foldl ?f (of_char c - 48) k = (of_char c - 48) * 10 ^ length k + foldl ?f 0 k"
    by (rule Cons.IH)
  have "foldl ?f m (c # k) = foldl ?f (10 * m + (of_char c - 48)) k" by simp
  also have "\<dots> = m * 10 ^ length (c # k) + foldl ?f (of_char c - 48) k"
    unfolding a b by (simp add: algebra_simps)
  also have "foldl ?f (of_char c - 48) k = foldl ?f 0 (c # k)" by simp
  finally show ?case .
qed

lemma numeric_value_Cons:
  "numeric_value (c # k) = (of_char c - 48) * 10 ^ length k + numeric_value k"
  unfolding numeric_value_def using foldl_digits[of "of_char c - 48" k] by simp

lemma numeric_value_bound: "list_all is_digit k \<Longrightarrow> numeric_value k < 10 ^ length k"
proof (induction k)
  case Nil
  then show ?case by (simp add: numeric_value_def)
next
  case (Cons c k)
  have d: "(of_char c :: nat) - 48 \<le> 9" using Cons.prems by (auto simp: is_digit_def)
  have b: "numeric_value k < 10 ^ length k" using Cons by simp
  have "(of_char c - 48) * 10 ^ length k + numeric_value k < 9 * 10 ^ length k + 10 ^ length k"
    using d b by (intro add_le_less_mono mult_right_mono) simp_all
  then show ?case by (simp add: numeric_value_Cons)
qed

lemma digit_eq: "is_digit c \<Longrightarrow> is_digit d \<Longrightarrow> (of_char c :: nat) - 48 = of_char d - 48 \<Longrightarrow> c = d"
proof -
  assume a: "is_digit c" "is_digit d" "(of_char c :: nat) - 48 = of_char d - 48"
  from a(1,2) have "48 \<le> (of_char c :: nat)" "48 \<le> (of_char d :: nat)"
    by (simp_all add: is_digit_def)
  with a(3) have "(of_char c :: nat) = of_char d" by linarith
  then show "c = d" by simp
qed

lemma numeric_value_inj_same_length:
  "length a = length b \<Longrightarrow> list_all is_digit a \<Longrightarrow> list_all is_digit b
    \<Longrightarrow> numeric_value a = numeric_value b \<Longrightarrow> a = b"
proof (induction a b rule: list_induct2)
  case Nil
  then show ?case by simp
next
  case (Cons c a d b)
  let ?p = "(10::nat) ^ length a"
  have ba: "numeric_value a < ?p" using Cons.prems(1) by (simp add: numeric_value_bound)
  have bb: "numeric_value b < ?p" using Cons.prems(2) Cons.hyps by (simp add: numeric_value_bound[of b])
  have e: "(of_char c - 48) * ?p + numeric_value a = (of_char d - 48) * ?p + numeric_value b"
    using Cons.prems(3) Cons.hyps by (simp add: numeric_value_Cons)
  have q: "((of_char c - 48) * ?p + numeric_value a) div ?p = of_char c - 48" using ba by simp
  have q': "((of_char d - 48) * ?p + numeric_value b) div ?p = of_char d - 48" using bb by simp
  have m: "((of_char c - 48) * ?p + numeric_value a) mod ?p = numeric_value a" using ba by simp
  have m': "((of_char d - 48) * ?p + numeric_value b) mod ?p = numeric_value b" using bb by simp
  have dd: "(of_char c :: nat) - 48 = of_char d - 48" using e q q' by simp
  have vv: "numeric_value a = numeric_value b" using e m m' by simp
  have "c = d" using digit_eq[OF _ _ dd] Cons.prems(1,2) by simp
  moreover have "a = b" using Cons.IH Cons.prems(1,2) vv by simp
  ultimately show ?case by simp
qed

lemma canonical_lower_bound:
  assumes "list_all is_digit k" and "2 \<le> length k" and "hd k \<noteq> CHR ''0''"
  shows "10 ^ (length k - 1) \<le> numeric_value k"
proof -
  obtain c r where k: "k = c # r" using assms(2) by (cases k) auto
  have "is_digit c" "c \<noteq> CHR ''0''" using assms k by simp_all
  then have "(of_char c :: nat) \<noteq> of_char CHR ''0''" by (simp only: of_char_eq_iff not_False_eq_True)
  then have "(of_char c :: nat) \<noteq> 48" by simp
  then have "1 \<le> (of_char c :: nat) - 48" using \<open>is_digit c\<close> by (auto simp: is_digit_def)
  then have "1 * 10 ^ length r \<le> (of_char c - 48) * (10::nat) ^ length r"
    by (intro mult_right_mono) simp_all
  then have m: "10 ^ length r \<le> (of_char c - 48) * (10::nat) ^ length r"
    by (simp only: mult_1)
  have l: "length k - 1 = length r" by (simp add: k)
  have v: "numeric_value k = (of_char c - 48) * 10 ^ length r + numeric_value r"
    by (simp add: k numeric_value_Cons)
  show ?thesis unfolding l v using m by linarith
qed

lemma array_index_inj:
  assumes "array_index a = Some i" and "array_index b = Some i"
  shows "a = b"
proof -
  have a: "a \<noteq> []" "list_all is_digit a" "length a = 1 \<or> hd a \<noteq> CHR ''0''" "numeric_value a = i"
    using assms(1) by (simp_all add: array_index_def split: if_splits)
  have b: "b \<noteq> []" "list_all is_digit b" "length b = 1 \<or> hd b \<noteq> CHR ''0''" "numeric_value b = i"
    using assms(2) by (simp_all add: array_index_def split: if_splits)
  have shorter: "numeric_value x < numeric_value y"
    if "length x < length y" "x \<noteq> []" "list_all is_digit x" "list_all is_digit y"
      "length y = 1 \<or> hd y \<noteq> CHR ''0''" for x y :: js_string
  proof -
    have "1 \<le> length x" using that(2) by (cases x) simp_all
    then have ly: "2 \<le> length y" using that(1) by simp
    then have hy: "hd y \<noteq> CHR ''0''" using that(5) by auto
    have "numeric_value x < 10 ^ length x" using that(3) by (rule numeric_value_bound)
    also have "(10::nat) ^ length x \<le> 10 ^ (length y - 1)"
      using that(1) by (intro power_increasing) simp_all
    also have "\<dots> \<le> numeric_value y" using that(4) ly hy by (rule canonical_lower_bound)
    finally show ?thesis .
  qed
  have "length a = length b"
  proof (rule ccontr)
    assume "length a \<noteq> length b"
    then consider "length a < length b" | "length b < length a" by linarith
    then show False
    proof cases
      case 1
      from shorter[OF 1 a(1,2) b(2,3)] a(4) b(4) show False by simp
    next
      case 2
      from shorter[OF 2 b(1,2) a(2,3)] a(4) b(4) show False by simp
    qed
  qed
  then show ?thesis using a(2,4) b(2,4) by (intro numeric_value_inj_same_length) simp_all
qed

subsection \<open>Own properties and their enumeration\<close>

lemma before_total:
  "\<not> enumerated_before k' k \<Longrightarrow> k \<noteq> k' \<Longrightarrow> enumerated_before k k'"
  by (auto simp: enumerated_before_def split: option.splits dest: array_index_inj)

lemma before_trans:
  "\<not> enumerated_before k' k \<Longrightarrow> k \<noteq> k' \<Longrightarrow> enumerated_before k' x \<Longrightarrow> enumerated_before k x"
  by (auto simp: enumerated_before_def split: option.splits dest: array_index_inj)

lemma keys_obj_insert: "fst ` set (obj_insert k v obj) = insert k (fst ` set obj)"
proof (induction obj)
  case Nil
  then show ?case by simp
next
  case (Cons p obj)
  then show ?case by (cases p) (simp add: insert_commute)
qed

lemma map_of_obj_insert:
  "k \<notin> fst ` set obj \<Longrightarrow> map_of (obj_insert k v obj) = (map_of obj)(k \<mapsto> v)"
  by (induction obj) (auto simp: fun_upd_twist)

lemma distinct_obj_insert:
  "k \<notin> fst ` set obj \<Longrightarrow> distinct (map fst obj) \<Longrightarrow> distinct (map fst (obj_insert k v obj))"
  by (induction obj) (auto simp: keys_obj_insert)

lemma enumerated_obj_insert:
  "k \<notin> fst ` set obj \<Longrightarrow> sorted_wrt enumerated_before (map fst obj)
    \<Longrightarrow> sorted_wrt enumerated_before (map fst (obj_insert k v obj))"
proof (induction obj)
  case Nil
  then show ?case by simp
next
  case (Cons p obj)
  obtain k' v' where p: "p = (k', v')" by (cases p)
  have ne: "k \<noteq> k'" using Cons.prems(1) p by auto
  show ?case
  proof (cases "enumerated_before k' k")
    case True
    have "sorted_wrt enumerated_before (map fst (obj_insert k v obj))"
      using Cons by simp
    moreover have "\<forall>x \<in> fst ` set (obj_insert k v obj). enumerated_before k' x"
      using Cons.prems(2) True p by (auto simp: keys_obj_insert)
    ultimately show ?thesis using True p by simp
  next
    case False
    have "enumerated_before k k'" using False ne by (rule before_total)
    moreover have "\<forall>x \<in> fst ` set obj. enumerated_before k x"
      using Cons.prems(2) p before_trans[OF False ne] by auto
    ultimately show ?thesis using False p Cons.prems(2) by simp
  qed
qed

lemma obj_insert_last:
  "\<forall>k' \<in> fst ` set obj. enumerated_before k' k \<Longrightarrow> obj_insert k v obj = obj @ [(k, v)]"
  by (induction obj) auto

lemma keys_obj_replace: "map fst (obj_replace k v obj) = map fst obj"
  by (induction obj) (auto simp: obj_replace_def)

lemma keys_set_obj_replace: "fst ` set (obj_replace k v obj) = fst ` set obj"
proof -
  have "fst ` set (obj_replace k v obj) = set (map fst (obj_replace k v obj))" by simp
  also have "\<dots> = set (map fst obj)" by (simp only: keys_obj_replace)
  finally show ?thesis by simp
qed

lemma obj_replace_Cons:
  "obj_replace k v ((k', v') # obj) = (k', if k' = k then v else v') # obj_replace k v obj"
  by (simp add: obj_replace_def)

lemma map_of_obj_replace:
  "map_of (obj_replace k v obj) x = (if x = k \<and> k \<in> fst ` set obj then Some v else map_of obj x)"
proof (induction obj)
  case Nil
  then show ?case by (simp add: obj_replace_def)
next
  case (Cons p obj)
  obtain k' v' where p: "p = (k', v')" by (cases p)
  show ?case
  proof (cases "x = k'")
    case True
    then show ?thesis by (simp add: p obj_replace_Cons)
  next
    case False
    then show ?thesis using Cons.IH by (auto simp: p obj_replace_Cons)
  qed
qed

lemma keys_obj_set:
  "fst ` set (obj_set k v obj)
     = (if k = ''__proto__'' \<and> k \<notin> fst ` set obj then fst ` set obj else insert k (fst ` set obj))"
proof (cases "k \<in> fst ` set obj")
  case True
  then show ?thesis
    by (simp add: obj_set_def obj_define_def keys_set_obj_replace insert_absorb)
next
  case False
  then show ?thesis
    by (simp add: obj_set_def obj_define_def keys_obj_insert)
qed

lemma map_of_obj_set:
  "map_of (obj_set k v obj) x
     = (if k = ''__proto__'' \<and> k \<notin> fst ` set obj then map_of obj x
        else if x = k then Some v else map_of obj x)"
proof (cases "k \<in> fst ` set obj")
  case True
  then show ?thesis
    by (simp add: obj_set_def obj_define_def map_of_obj_replace)
next
  case False
  then show ?thesis
    by (simp add: obj_set_def obj_define_def map_of_obj_insert)
qed

lemma distinct_obj_set: "distinct (map fst obj) \<Longrightarrow> distinct (map fst (obj_set k v obj))"
  by (cases "k \<in> fst ` set obj")
     (simp_all add: obj_set_def obj_define_def distinct_obj_insert keys_obj_replace)

lemma enumerated_obj_set:
  "sorted_wrt enumerated_before (map fst obj)
    \<Longrightarrow> sorted_wrt enumerated_before (map fst (obj_set k v obj))"
  by (cases "k \<in> fst ` set obj")
     (simp_all add: obj_set_def obj_define_def enumerated_obj_insert keys_obj_replace)

lemma obj_set_last:
  assumes "k \<notin> fst ` set obj" and "k \<noteq> ''__proto__''"
    and "\<forall>k' \<in> fst ` set obj. enumerated_before k' k"
  shows "obj_set k v obj = obj @ [(k, v)]"
  using assms by (simp add: obj_set_def obj_define_def obj_insert_last)


subsection \<open>Lower case and the normalizing loop\<close>

lemma of_char_char_of_small: "n < 256 \<Longrightarrow> (of_char (char_of (n::nat)) :: nat) = n"
  by (simp add: of_char_of)

lemma toLowerCase_unit_lower: "\<not> is_upper_case (toLowerCase_unit c)"
proof -
  let ?n = "of_char c :: nat"
  show ?thesis
  proof (cases "(65 \<le> ?n \<and> ?n \<le> 90) \<or> (192 \<le> ?n \<and> ?n \<le> 222 \<and> ?n \<noteq> 215)")
    case True
    then have lt: "?n + 32 < 256" by auto
    have t: "toLowerCase_unit c = char_of (?n + 32)"
      using True by (simp add: toLowerCase_unit_def Let_def)
    have v: "(of_char (toLowerCase_unit c) :: nat) = ?n + 32"
      unfolding t using lt by (rule of_char_char_of_small)
    show ?thesis unfolding is_upper_case_def v using True by linarith
  next
    case False
    have "toLowerCase_unit c = c"
      unfolding toLowerCase_unit_def Let_def using False by (rule if_not_P)
    then show ?thesis using False by (simp only: is_upper_case_def not_False_eq_True)
  qed
qed

lemma toLowerCase_unit_fixed: "\<not> is_upper_case c \<Longrightarrow> toLowerCase_unit c = c"
  unfolding toLowerCase_unit_def is_upper_case_def Let_def by (rule if_not_P)

lemma toLowerCase_lower: "\<not> list_ex is_upper_case (toLowerCase k)"
  by (simp add: toLowerCase_def list_ex_iff toLowerCase_unit_lower)

lemma toLowerCase_fixed: "\<not> list_ex is_upper_case k \<Longrightarrow> toLowerCase k = k"
  by (induction k) (simp_all add: toLowerCase_def toLowerCase_unit_fixed)

lemma normalizing_keys:
  "fst ` set (foldl (\<lambda>normalized (key, v). obj_set (toLowerCase key) v normalized) acc h)
     \<subseteq> fst ` set acc \<union> toLowerCase ` fst ` set h"
proof (induction h arbitrary: acc)
  case Nil
  then show ?case by simp
next
  case (Cons p h)
  obtain k v where p: "p = (k, v)" by (cases p)
  have "fst ` set (obj_set (toLowerCase k) v acc) \<subseteq> insert (toLowerCase k) (fst ` set acc)"
    by (auto simp: keys_obj_set split: if_splits)
  with Cons.IH[of "obj_set (toLowerCase k) v acc"] show ?case
    by (auto simp: p)
qed

lemma normalizing_no_proto:
  "''__proto__'' \<notin> fst ` set acc \<Longrightarrow>
   ''__proto__'' \<notin> fst ` set (foldl (\<lambda>normalized (key, v). obj_set (toLowerCase key) v normalized) acc h)"
proof (induction h arbitrary: acc)
  case Nil
  then show ?case by simp
next
  case (Cons p h)
  obtain k v where p: "p = (k, v)" by (cases p)
  have "''__proto__'' \<notin> fst ` set (obj_set (toLowerCase k) v acc)"
    using Cons.prems by (auto simp: keys_obj_set split: if_splits)
  from Cons.IH[OF this] show ?case by (simp add: p)
qed

lemma normalizing_distinct:
  "distinct (map fst acc) \<Longrightarrow>
   distinct (map fst (foldl (\<lambda>normalized (key, v). obj_set (toLowerCase key) v normalized) acc h))"
proof (induction h arbitrary: acc)
  case Nil
  then show ?case by simp
next
  case (Cons p h)
  then show ?case by (cases p) (simp add: distinct_obj_set)
qed

lemma normalizing_enumerated:
  "sorted_wrt enumerated_before (map fst acc) \<Longrightarrow>
   sorted_wrt enumerated_before
     (map fst (foldl (\<lambda>normalized (key, v). obj_set (toLowerCase key) v normalized) acc h))"
proof (induction h arbitrary: acc)
  case Nil
  then show ?case by simp
next
  case (Cons p h)
  then show ?case by (cases p) (simp add: enumerated_obj_set)
qed

lemma normalizing_lookup:
  "''__proto__'' \<notin> fst ` set acc \<Longrightarrow>
   map_of (foldl (\<lambda>normalized (key, v). obj_set (toLowerCase key) v normalized) acc h) x
     = (if x = ''__proto__'' then None
        else case map_of (rev (map (\<lambda>(k, v). (toLowerCase k, v)) h)) x of
               None \<Rightarrow> map_of acc x
             | Some v \<Rightarrow> Some v)"
proof (induction h arbitrary: acc)
  case Nil
  then show ?case by (auto simp: map_of_eq_None_iff)
next
  case (Cons p h)
  obtain k v where p: "p = (k, v)" by (cases p)
  have np: "''__proto__'' \<notin> fst ` set (obj_set (toLowerCase k) v acc)"
    using Cons.prems by (auto simp: keys_obj_set split: if_splits)
  show ?case
    using Cons.prems
    by (simp add: Cons.IH[OF np] p map_of_obj_set map_add_def split: option.splits)
qed

lemma normalizing_fixed:
  "distinct (map fst (acc @ h)) \<Longrightarrow> sorted_wrt enumerated_before (map fst (acc @ h))
    \<Longrightarrow> \<forall>k \<in> fst ` set h. toLowerCase k = k \<and> k \<noteq> ''__proto__''
    \<Longrightarrow> foldl (\<lambda>normalized (key, v). obj_set (toLowerCase key) v normalized) acc h = acc @ h"
proof (induction h arbitrary: acc)
  case Nil
  then show ?case by simp
next
  case (Cons p h)
  obtain k v where p: "p = (k, v)" by (cases p)
  have lk: "toLowerCase k = k" and np: "k \<noteq> ''__proto__''" using Cons.prems(3) p by simp_all
  have fresh: "k \<notin> fst ` set acc" using Cons.prems(1) p by auto
  have before: "\<forall>k' \<in> fst ` set acc. enumerated_before k' k"
    using Cons.prems(2) p by (auto simp: sorted_wrt_append)
  have one: "obj_set k v acc = acc @ [(k, v)]"
    using fresh np before by (rule obj_set_last)
  have "foldl (\<lambda>normalized (key, v). obj_set (toLowerCase key) v normalized) (acc @ [(k, v)]) h
          = (acc @ [(k, v)]) @ h"
  proof (rule Cons.IH)
    show "distinct (map fst ((acc @ [(k, v)]) @ h))" using Cons.prems(1) p by simp
    show "sorted_wrt enumerated_before (map fst ((acc @ [(k, v)]) @ h))" using Cons.prems(2) p by simp
    show "\<forall>k\<in>fst ` set h. toLowerCase k = k \<and> k \<noteq> ''__proto__''" using Cons.prems(3) by simp
  qed
  then show ?case by (simp add: p lk one)
qed

subsection \<open>Properties of \<open>#normalizeHeaders\<close>\<close>

text \<open>
  Header normalization is idempotent: normalizing a normalized mapping gives the same
  object (same properties, same enumeration). No key of the result holds an upper-case
  letter. Looking up a key other than \<open>__proto__\<close> among the own properties of the
  result finds the value of the last header of the input whose lower-cased name it is
  (the later key wins); the result has no own property \<open>__proto__\<close>.
\<close>

lemma normalizeHeaders_idempotent:
  "normalizeHeaders (normalizeHeaders h) = normalizeHeaders h
   \<and> list_all (\<lambda>(k, v). \<not> list_ex is_upper_case k) (normalizeHeaders h)
   \<and> map_of (normalizeHeaders h) x
       = (if x = ''__proto__'' then None
          else map_of (rev (map (\<lambda>(k, v). (toLowerCase k, v)) h)) x)"
proof -
  let ?n = "normalizeHeaders h"
  have d: "distinct (map fst ([] @ ?n))" by (simp add: normalizeHeaders_def normalizing_distinct)
  have e: "sorted_wrt enumerated_before (map fst ([] @ ?n))"
    by (simp add: normalizeHeaders_def normalizing_enumerated)
  have keys: "fst ` set ?n \<subseteq> toLowerCase ` fst ` set h"
    using normalizing_keys[of "[]" h] by (simp add: normalizeHeaders_def)
  have np: "''__proto__'' \<notin> fst ` set ?n"
    unfolding normalizeHeaders_def by (rule normalizing_no_proto) simp
  have low: "\<not> list_ex is_upper_case k" if "k \<in> fst ` set ?n" for k
  proof -
    from that keys obtain k' where "k = toLowerCase k'" by blast
    then show ?thesis by (simp only: toLowerCase_lower not_False_eq_True)
  qed
  have l: "\<forall>k \<in> fst ` set ?n. toLowerCase k = k \<and> k \<noteq> ''__proto__''"
  proof
    fix k assume k: "k \<in> fst ` set ?n"
    have "toLowerCase k = k" using low[OF k] by (rule toLowerCase_fixed)
    moreover have "k \<noteq> ''__proto__''" using k np by (metis)
    ultimately show "toLowerCase k = k \<and> k \<noteq> ''__proto__''" by (rule conjI)
  qed
  have "foldl (\<lambda>normalized (key, v). obj_set (toLowerCase key) v normalized) [] ?n = [] @ ?n"
    by (rule normalizing_fixed[OF d e l])
  then have idem: "normalizeHeaders ?n = ?n" by (simp add: normalizeHeaders_def)
  have low': "list_all (\<lambda>(k, v). \<not> list_ex is_upper_case k) ?n"
    unfolding list_all_iff
  proof
    fix p assume p: "p \<in> set ?n"
    obtain k v where kv: "p = (k, v)" by (cases p)
    have "k \<in> fst ` set ?n" using p kv by force
    from low[OF this] show "case p of (k, v) \<Rightarrow> \<not> list_ex is_upper_case k"
      by (simp add: kv)
  qed
  have e0: "''__proto__'' \<notin> fst ` set ([] :: 'a object)" by simp
  have look: "map_of ?n x = (if x = ''__proto__'' then None
          else map_of (rev (map (\<lambda>(k, v). (toLowerCase k, v)) h)) x)"
    unfolding normalizeHeaders_def normalizing_lookup[OF e0]
    by (cases "map_of (rev (map (\<lambda>(k, v). (toLowerCase k, v)) h)) x") simp_all
  from idem low' look show ?thesis by (intro conjI)
qed

text \<open>
  The same on one input: two spellings of \<open>Content-Type\<close>, a header \<open>X-B\<close> and two
  headers named by array indices.
\<close>

lemma normalizeHeaders_example:
  "normalizeHeaders [(''9'', ''y''), (''10'', ''x''), (''Content-Type'', ''a''), (''X-B'', ''c''),
                     (''content-type'', ''b'')]
   = [(''9'', ''y''), (''10'', ''x''), (''content-type'', ''b''), (''x-b'', ''c'')]"
proof -
  have l: "toLowerCase ''Content-Type'' = ''content-type''" "toLowerCase ''X-B'' = ''x-b''"
    "toLowerCase ''10'' = ''10''" "toLowerCase ''content-type'' = ''content-type''"
    "toLowerCase ''9'' = ''9''"
    by code_simp+
  have ai: "array_index ''10'' = Some 10" "array_index ''9'' = Some 9" "array_index ''x-b'' = None"
    "array_index ''content-type'' = None"
    by (simp_all add: array_index_def numeric_value_def is_digit_def)
  show ?thesis
    by (simp add: normalizeHeaders_def obj_set_def obj_define_def obj_replace_def
         enumerated_before_def l ai)
qed

text \<open>
  C8. What the code does with two headers whose names are equal after lower-casing, when
  that lower-cased name is \<open>__proto__\<close>: each assignment \<open>normalized['__proto__'] = value\<close>
  runs the prototype setter, which ignores a string, and the result is the empty object.
  Neither value is kept, where the later value, \<open>b\<close>, is the one to win.
\<close>

theorem normalizeHeaders_loses_proto_header:
  "normalizeHeaders [(''__PROTO__'', ''a''), (''__Proto__'', ''b'')] = []
   \<and> toLowerCase ''__PROTO__'' = ''__proto__''
   \<and> toLowerCase ''__Proto__'' = ''__proto__''
   \<and> map_of (rev (map (\<lambda>(k, v). (toLowerCase k, v)) [(''__PROTO__'', ''a''), (''__Proto__'', ''b'')]))
         ''__proto__'' = Some ''b''"
proof -
  have a: "toLowerCase ''__PROTO__'' = ''__proto__''" by code_simp
  have b: "toLowerCase ''__Proto__'' = ''__proto__''" by code_simp
  show ?thesis by (simp add: normalizeHeaders_def obj_set_def a b)
qed

section \<open>The retry loop of src/index.js\<close>

lemma loop_Suc:
  "resolveRetryLoop_while opts settle (Suc r) j =
     (case settle (attempts j) of
        Accept resp \<Rightarrow>
          if status resp \<ge> 400 \<and> r > 0
             \<and> (status resp \<in> set (retryOnStatus opts) \<or> retryOnErrorResponseStatus opts)
          then resolveRetryLoop_while opts settle r (j\<lparr>attempts := Suc (attempts j)\<rparr>)
          else (Returned resp, j\<lparr>attempts := Suc (attempts j)\<rparr>)
      | Reject err \<Rightarrow>
          if r = 0 then (Thrown err, j\<lparr>attempts := Suc (attempts j)\<rparr>)
          else (case resolveRetryLoopError opts (errorTrace j) err of
                  Inl thrown \<Rightarrow> (Thrown thrown, j\<lparr>attempts := Suc (attempts j)\<rparr>)
                | Inr trace \<Rightarrow>
                    resolveRetryLoop_while opts settle r
                      (j\<lparr>attempts := Suc (attempts j), errorTrace := trace,
                         waits := waits j @ [retryDelay opts]\<rparr>))
      | Uncaught thrown \<Rightarrow> (Pending thrown, j\<lparr>attempts := Suc (attempts j)\<rparr>))"
  by (simp add: Let_def split: settlement.splits sum.splits)


lemma classifier_policy:
  assumes "code err = Some ''E_HTTP_REQUEST_INVALID_RESPONSE_STATUS'' \<longrightarrow> response err \<noteq> None"
  shows "resolveRetryLoopError opts trace err
           = (if retryable opts err then Inr (trace @ [err]) else Inl err)"
  using assms by (auto simp: resolveRetryLoopError_def retryable_def split: option.splits)




section \<open>The retry loop of the revision\<close>

lemma loop_Suc_rev2:
  "resolveRetryLoop_while_rev2 opts settle reconnect (Suc r) j =
     (case settle (attempts j) of
        Accept resp \<Rightarrow>
          if status resp \<ge> 400 \<and> r > 0
             \<and> (status resp \<in> set (retryOnStatus opts) \<or> retryOnErrorResponseStatus opts)
          then resolveRetryLoop_while_rev2 opts settle reconnect r (j\<lparr>attempts := Suc (attempts j)\<rparr>)
          else (Returned resp, j\<lparr>attempts := Suc (attempts j)\<rparr>)
      | Reject err \<Rightarrow>
          if r = 0 then (Thrown err, j\<lparr>attempts := Suc (attempts j)\<rparr>)
          else (case resolveRetryLoopError_rev2 opts reconnect (j\<lparr>attempts := Suc (attempts j)\<rparr>) err of
                  Inl thrown \<Rightarrow> (Thrown thrown, j\<lparr>attempts := Suc (attempts j)\<rparr>)
                | Inr j'' \<Rightarrow>
                    resolveRetryLoop_while_rev2 opts settle reconnect r
                      (j''\<lparr>waits := waits j'' @ [retryDelay opts]\<rparr>))
      | Uncaught thrown \<Rightarrow> (Pending thrown, j\<lparr>attempts := Suc (attempts j)\<rparr>))"
  by (simp add: Let_def split: settlement.splits sum.splits)





section \<open>Properties of the Retry Engine\<close>




text \<open>
  C7. In the retry loop of \<open>src/index.js\<close>, when the attempt of an iteration resolves
  with a response of status 400 or more: if attempts remain (the decremented counter is
  positive) and the status is a member of \<open>retryOnStatus\<close> or
  \<open>retryOnErrorResponseStatus\<close> is set, the loop goes on with the next iteration, its
  trace of failures and its delays being what they were; otherwise the loop returns that
  very response.
\<close>

theorem retry_on_resolved_error_status:
  assumes "settle (attempts j) = Accept resp" and "400 \<le> status resp"
  shows "resolveRetryLoop_while opts settle (Suc retry') j =
     (if 0 < retry' \<and> (status resp \<in> set (retryOnStatus opts) \<or> retryOnErrorResponseStatus opts)
      then resolveRetryLoop_while opts settle retry' (j\<lparr>attempts := Suc (attempts j)\<rparr>)
      else (Returned resp, j\<lparr>attempts := Suc (attempts j)\<rparr>))"
  using assms unfolding loop_Suc by simp

text \<open>
  The property at work: three resolved 503 responses with \<open>retryOnStatus = [503]\<close> and
  the default budget of three; the third response is returned, nothing was recorded and
  no delay was awaited.
\<close>

theorem retry_on_resolved_error_status_witness:
  "fetch ((defaults ''GET'')\<lparr>retryOnStatus := [503], doNotThrowOnErrorStatus := True\<rparr>)
      (\<lambda>i. Accept \<lparr>status = 503, headers = [], body = Some (JString ''busy'')\<rparr>)
    = (Returned \<lparr>status = 503, headers = [], body = Some (JString ''busy'')\<rparr>,
       \<lparr>attempts = 3, errorTrace = [], waits = []\<rparr>)"
proof -
  let ?opts = "(defaults ''GET'')\<lparr>retryOnStatus := [503], doNotThrowOnErrorStatus := True\<rparr>"
  let ?r = "\<lparr>status = 503, headers = [], body = Some (JString ''busy'')\<rparr>"
  let ?settle = "\<lambda>i::nat. Accept ?r"
  have n3: "nat \<bar>\<lfloor>retry ?opts\<rfloor>\<bar> = Suc (Suc (Suc 0))"
    by (simp add: defaults_def)
  have nz: "retry ?opts \<noteq> 0" by (simp add: defaults_def)
  have s: "resolveRetryLoop_while ?opts ?settle (Suc n) j =
     (if 0 < n \<and> (status ?r \<in> set (retryOnStatus ?opts) \<or> retryOnErrorResponseStatus ?opts)
      then resolveRetryLoop_while ?opts ?settle n (j\<lparr>attempts := Suc (attempts j)\<rparr>)
      else (Returned ?r, j\<lparr>attempts := Suc (attempts j)\<rparr>))" for n j
    by (rule retry_on_resolved_error_status) simp_all
  show ?thesis
    unfolding fetch_def resolveRetryLoop_def n3 using nz
    by (simp add: s del: resolveRetryLoop_while.simps(2))
qed

text \<open>
  C4. For a failure caught in the retry loop of \<open>src/index.js\<close> while attempts remain,
  the classifier records it exactly when the retry policy of the specification says so
  (\<^const>\<open>retryable\<close>: a client error always; a timeout, a downstream error, a
  body-format failure by their flags; a status failure by its flag or by the membership
  of the failing status in \<open>retryOnStatus\<close>). A recorded failure is appended to the
  trace, the delay is awaited and the loop goes on; any other failure, of these kinds or
  of any other kind, is thrown as it is, without a delay. A status failure carries the
  response that triggered it.
\<close>

theorem retry_classification:
  assumes "settle (attempts j) = Reject err" and "0 < retry'"
    and "code err = Some ''E_HTTP_REQUEST_INVALID_RESPONSE_STATUS'' \<longrightarrow> response err \<noteq> None"
  shows "resolveRetryLoopError opts (errorTrace j) err
           = (if retryable opts err then Inr (errorTrace j @ [err]) else Inl err)
     \<and> resolveRetryLoop_while opts settle (Suc retry') j =
         (if retryable opts err
          then resolveRetryLoop_while opts settle retry'
                 (j\<lparr>attempts := Suc (attempts j), errorTrace := errorTrace j @ [err],
                    waits := waits j @ [retryDelay opts]\<rparr>)
          else (Thrown err, j\<lparr>attempts := Suc (attempts j)\<rparr>))"
  using assms(1,2) unfolding loop_Suc by (simp add: classifier_policy[OF assms(3)])

text \<open>
  The property at work, on the scenarios of the repository's tests: a 503 failure with
  \<open>retryOnStatus = [503]\<close> and a budget of two is recorded once and thrown by the second
  attempt; with \<open>retryOnStatus = [500]\<close> it is thrown by the first attempt.
\<close>

theorem retry_classification_witness:
  "fetch ((defaults ''GET'')\<lparr>retry := 2, retryOnStatus := [503]\<rparr>)
      (\<lambda>i. Reject (Error (Some ''E_HTTP_REQUEST_INVALID_RESPONSE_STATUS'') NoCause
                      (Some \<lparr>status = 503, headers = [], body = Some (JString [])\<rparr>)))
    = (Thrown (Error (Some ''E_HTTP_REQUEST_INVALID_RESPONSE_STATUS'') NoCause
                 (Some \<lparr>status = 503, headers = [], body = Some (JString [])\<rparr>)),
       \<lparr>attempts = 2,
        errorTrace = [Error (Some ''E_HTTP_REQUEST_INVALID_RESPONSE_STATUS'') NoCause
                        (Some \<lparr>status = 503, headers = [], body = Some (JString [])\<rparr>)],
        waits = [200]\<rparr>)
   \<and> fetch ((defaults ''GET'')\<lparr>retryOnStatus := [500]\<rparr>)
      (\<lambda>i. Reject (Error (Some ''E_HTTP_REQUEST_INVALID_RESPONSE_STATUS'') NoCause
                      (Some \<lparr>status = 503, headers = [], body = Some (JString [])\<rparr>)))
    = (Thrown (Error (Some ''E_HTTP_REQUEST_INVALID_RESPONSE_STATUS'') NoCause
                 (Some \<lparr>status = 503, headers = [], body = Some (JString [])\<rparr>)),
       \<lparr>attempts = 1, errorTrace = [], waits = []\<rparr>)"
proof -
  let ?e = "Error (Some ''E_HTTP_REQUEST_INVALID_RESPONSE_STATUS'') NoCause
              (Some \<lparr>status = 503, headers = [], body = Some (JString [])\<rparr>)"
  let ?settle = "\<lambda>i::nat. Reject ?e"
  let ?o1 = "(defaults ''GET'')\<lparr>retry := 2, retryOnStatus := [503]\<rparr>"
  let ?o2 = "(defaults ''GET'')\<lparr>retryOnStatus := [500]\<rparr>"
  let ?j0 = "\<lparr>attempts = 0, errorTrace = [], waits = []\<rparr>"
  have wf: "code ?e = Some ''E_HTTP_REQUEST_INVALID_RESPONSE_STATUS'' \<longrightarrow> response ?e \<noteq> None"
    by simp
  have n1: "nat \<bar>\<lfloor>retry ?o1\<rfloor>\<bar> = Suc (Suc 0)" by simp
  have n2: "nat \<bar>\<lfloor>retry ?o2\<rfloor>\<bar> = Suc (Suc (Suc 0))" by (simp add: defaults_def)
  have r1: "retryable ?o1 ?e" by (simp add: retryable_def)
  have r2: "\<not> retryable ?o2 ?e" by (simp add: retryable_def defaults_def)
  have s1: "resolveRetryLoop_while ?o1 ?settle (Suc (Suc 0)) ?j0 =
      resolveRetryLoop_while ?o1 ?settle (Suc 0)
        (?j0\<lparr>attempts := Suc (attempts ?j0), errorTrace := errorTrace ?j0 @ [?e],
              waits := waits ?j0 @ [retryDelay ?o1]\<rparr>)"
    using retry_classification[of ?settle ?j0 ?e "Suc 0" ?o1, OF _ _ wf] r1 by simp
  have s2: "resolveRetryLoop_while ?o2 ?settle (Suc (Suc (Suc 0))) ?j0 =
      (Thrown ?e, ?j0\<lparr>attempts := Suc (attempts ?j0)\<rparr>)"
    using retry_classification[of ?settle ?j0 ?e "Suc (Suc 0)" ?o2, OF _ _ wf] r2 by simp
  have a: "fetch ?o1 ?settle = (Thrown ?e, \<lparr>attempts = 2, errorTrace = [?e], waits = [200]\<rparr>)"
    unfolding fetch_def resolveRetryLoop_def n1 s1
    by (simp add: defaults_def)
  have b: "fetch ?o2 ?settle = (Thrown ?e, \<lparr>attempts = 1, errorTrace = [], waits = []\<rparr>)"
    unfolding fetch_def resolveRetryLoop_def n2 s2
    by (simp add: defaults_def)
  from a b show ?thesis by simp
qed

text \<open>
  C2. What the code does when the budget is exhausted by failures of several kinds: three
  attempts fail with a client error, a retryable timeout and a client error. Both
  \<open>src/index.js\<close> and the revision throw the failure of the last attempt as it is; the
  recorded failures are of two kinds, and no aggregate failure is built. In the revision
  the last iteration of the loop always returns or throws, so the statements after its
  loop, which build the aggregate, are never reached.
\<close>

theorem exhausted_retries_throw_last_failure:
  "resolveRetryLoop ((defaults ''GET'')\<lparr>retryOnClientTimeout := True\<rparr>)
      (\<lambda>i. if i = 1 then Reject (Error (Some ''E_HTTP_REQUEST_CLIENT_TIMEOUT'') NoCause None)
            else Reject (Error (Some ''E_HTTP_REQUEST_CLIENT_ERROR'') NoCause None))
    = (Thrown (Error (Some ''E_HTTP_REQUEST_CLIENT_ERROR'') NoCause None),
       \<lparr>attempts = 3,
        errorTrace = [Error (Some ''E_HTTP_REQUEST_CLIENT_ERROR'') NoCause None,
                      Error (Some ''E_HTTP_REQUEST_CLIENT_TIMEOUT'') NoCause None],
        waits = [200, 200]\<rparr>)
   \<and> resolveRetryLoop_rev2 ((defaults ''GET'')\<lparr>retry := 2, retryOnClientTimeout := True\<rparr>)
      (\<lambda>i. if i = 1 then Reject (Error (Some ''E_HTTP_REQUEST_CLIENT_TIMEOUT'') NoCause None)
            else Reject (Error (Some ''E_HTTP_REQUEST_CLIENT_ERROR'') NoCause None))
      (\<lambda>k. None)
    = (Thrown (Error (Some ''E_HTTP_REQUEST_CLIENT_ERROR'') NoCause None),
       \<lparr>attempts = 3,
        errorTrace = [Error (Some ''E_HTTP_REQUEST_CLIENT_ERROR'') NoCause None,
                      Error (Some ''E_HTTP_REQUEST_CLIENT_TIMEOUT'') NoCause None],
        waits = [200, 200], reconnects = 0\<rparr>)"
proof -
  let ?o1 = "(defaults ''GET'')\<lparr>retryOnClientTimeout := True\<rparr>"
  let ?o2 = "(defaults ''GET'')\<lparr>retry := 2, retryOnClientTimeout := True\<rparr>"
  have n1: "nat \<bar>\<lfloor>retry ?o1\<rfloor>\<bar> = Suc (Suc (Suc 0))" by (simp add: defaults_def)
  have n2: "nat \<bar>\<lfloor>retry ?o2\<rfloor>\<bar> + 1 = Suc (Suc (Suc 0))" by simp
  show ?thesis
    unfolding resolveRetryLoop_def resolveRetryLoop_rev2_def n1 n2
    by (simp add: loop_Suc loop_Suc_rev2 resolveRetryLoopError_def resolveRetryLoopError_rev2_def
          defaults_def
        del: resolveRetryLoop_while.simps(2) resolveRetryLoop_while_rev2.simps(2))
qed

section \<open>Properties of the Response Resolver (src/index.js)\<close>

lemma onStreamEnd_not_status:
  "onStreamEnd parse resp raw = Reject err \<Longrightarrow> code err \<noteq> Some ''E_HTTP_REQUEST_INVALID_RESPONSE_STATUS''"
  by (auto simp: onStreamEnd_def split: option.splits if_splits)

lemma onStreamEnd_settles: "onStreamEnd parse resp raw \<noteq> Uncaught thrown"
  by (simp add: onStreamEnd_def split: option.splits)

text \<open>
  A received response whose body stream ends decides the attempt: whenever \<open>#resolve\<close>
  handed a request to the transport, its promise settles as \<open>#resolveOnResponse\<close>
  settles it.
\<close>

lemma received_response_decides_attempt:
  "snd (resolve pf http2Session opts (Incoming rd)) \<noteq> []
    \<Longrightarrow> fst (resolve pf http2Session opts (Incoming rd)) = resolveOnResponse (JSON_parse pf) opts rd"
  by (auto simp: resolve_def Let_def resolveHttp1Client_def resolveHttp2Client_def on_event_def
        split: sum.splits option.splits if_splits)

text \<open>
  C3 (as amended). For every received response whose body stream ends, the attempt fails
  with an \<open>E_HTTP_REQUEST_INVALID_RESPONSE_STATUS\<close> failure if and only if the status is
  400 or more and \<open>doNotThrowOnErrorStatus\<close> is not set, or the status is in [300, 400)
  and \<open>doNotThrowOnRedirectStatus\<close> is not set. A response with a status below 300
  passes the gate whatever the two flags are. The attempt then fails, with
  \<open>E_HTTP_REQUEST_INVALID_RESPONSE_BODY_FORMAT\<close>, exactly when no downstream sink is
  given, the content type starts with \<open>application/json\<close> and the buffered body (the
  text \<open>{}\<close> in place of an empty body) does not parse; in every other case it resolves
  with that status: without body when a sink is given, with the parsed body when the
  content type starts with \<open>application/json\<close>, with the buffered text otherwise.
\<close>

theorem status_gate:
  "((\<exists>err. resolveOnResponse parse opts rd = Reject err
            \<and> code err = Some ''E_HTTP_REQUEST_INVALID_RESPONSE_STATUS'')
      = ((400 \<le> statusCode rd \<and> \<not> doNotThrowOnErrorStatus opts)
         \<or> (300 \<le> statusCode rd \<and> statusCode rd < 400 \<and> \<not> doNotThrowOnRedirectStatus opts)))
   \<and> (statusCode rd < 300 \<longrightarrow>
         resolveOnResponse parse (opts\<lparr>doNotThrowOnErrorStatus := e, doNotThrowOnRedirectStatus := r\<rparr>) rd
           = resolveOnResponse parse opts rd
         \<and> ((\<exists>err. resolveOnResponse parse opts rd = Reject err)
              = (\<not> downstream opts
                 \<and> (\<exists>contentType. obj_get (headers_in rd) ''content-type'' = Some contentType
                        \<and> startsWith contentType ''application/json'')
                 \<and> parse (if foldl (@) [] (chunks rd) = [] then ''{}'' else foldl (@) [] (chunks rd)) = None))
         \<and> (\<forall>err. resolveOnResponse parse opts rd = Reject err
                 \<longrightarrow> code err = Some ''E_HTTP_REQUEST_INVALID_RESPONSE_BODY_FORMAT'')
         \<and> ((\<exists>resp. resolveOnResponse parse opts rd = Accept resp \<and> status resp = statusCode rd)
              = (\<not> (\<exists>err. resolveOnResponse parse opts rd = Reject err)))
         \<and> resolveOnResponse parse opts rd =
             (if downstream opts
              then Accept \<lparr>status = statusCode rd, headers = headers_in rd, body = None\<rparr>
              else if (\<exists>contentType. obj_get (headers_in rd) ''content-type'' = Some contentType
                        \<and> startsWith contentType ''application/json'')
              then (case parse (if foldl (@) [] (chunks rd) = [] then ''{}''
                                else foldl (@) [] (chunks rd)) of
                      Some v \<Rightarrow>
                        Accept \<lparr>status = statusCode rd, headers = headers_in rd, body = Some v\<rparr>
                    | None \<Rightarrow>
                        Reject (Error (Some ''E_HTTP_REQUEST_INVALID_RESPONSE_BODY_FORMAT'')
                                  (Reason SyntaxError)
                                  (Some \<lparr>status = statusCode rd, headers = headers_in rd,
                                          body = Some (JString (foldl (@) [] (chunks rd)))\<rparr>)))
              else Accept \<lparr>status = statusCode rd, headers = headers_in rd,
                           body = Some (JString (foldl (@) [] (chunks rd)))\<rparr>))"
proof -
  let ?resp = "\<lparr>status = statusCode rd, headers = headers_in rd, body = None\<rparr>"
  let ?raw = "foldl (@) [] (chunks rd)"
  let ?txt = "if ?raw = [] then ''{}'' else ?raw"
  let ?json = "\<exists>contentType. obj_get (headers_in rd) ''content-type'' = Some contentType
                        \<and> startsWith contentType ''application/json''"
  let ?gate = "(400 \<le> statusCode rd \<and> \<not> doNotThrowOnErrorStatus opts)
         \<or> (300 \<le> statusCode rd \<and> statusCode rd < 400 \<and> \<not> doNotThrowOnRedirectStatus opts)"
  let ?exact = "if downstream opts
              then Accept \<lparr>status = statusCode rd, headers = headers_in rd, body = None\<rparr>
              else if ?json
              then (case parse ?txt of
                      Some v \<Rightarrow>
                        Accept \<lparr>status = statusCode rd, headers = headers_in rd, body = Some v\<rparr>
                    | None \<Rightarrow>
                        Reject (Error (Some ''E_HTTP_REQUEST_INVALID_RESPONSE_BODY_FORMAT'')
                                  (Reason SyntaxError)
                                  (Some \<lparr>status = statusCode rd, headers = headers_in rd,
                                          body = Some (JString ?raw)\<rparr>)))
              else Accept \<lparr>status = statusCode rd, headers = headers_in rd,
                           body = Some (JString ?raw)\<rparr>"
  have closed_gate: "\<exists>err. resolveOnResponse parse opts rd = Reject err
            \<and> code err = Some ''E_HTTP_REQUEST_INVALID_RESPONSE_STATUS''" if ?gate
    using that onStreamEnd_settles[of parse ?resp ?raw]
    by (auto simp: resolveOnResponse_def Let_def bufferResponseBody_def split: settlement.splits)
  have open_gate: "resolveOnResponse parse opts rd
      = (if downstream opts then Accept ?resp else onStreamEnd parse ?resp ?raw)"
    if "\<not> ?gate"
    using that by (auto simp: resolveOnResponse_def Let_def bufferResponseBody_def)
  have no_status: "\<not> (\<exists>err. resolveOnResponse parse opts rd = Reject err
            \<and> code err = Some ''E_HTTP_REQUEST_INVALID_RESPONSE_STATUS'')" if "\<not> ?gate"
    using onStreamEnd_not_status[of parse ?resp ?raw]
    by (auto simp: open_gate[OF that])
  have iff: "(\<exists>err. resolveOnResponse parse opts rd = Reject err
            \<and> code err = Some ''E_HTTP_REQUEST_INVALID_RESPONSE_STATUS'') = ?gate"
    using closed_gate no_status by blast
  have low: "resolveOnResponse parse (opts\<lparr>doNotThrowOnErrorStatus := e, doNotThrowOnRedirectStatus := r\<rparr>) rd
           = resolveOnResponse parse opts rd
         \<and> ((\<exists>err. resolveOnResponse parse opts rd = Reject err)
              = (\<not> downstream opts \<and> ?json \<and> parse ?txt = None))
         \<and> (\<forall>err. resolveOnResponse parse opts rd = Reject err
                 \<longrightarrow> code err = Some ''E_HTTP_REQUEST_INVALID_RESPONSE_BODY_FORMAT'')
         \<and> ((\<exists>resp. resolveOnResponse parse opts rd = Accept resp \<and> status resp = statusCode rd)
              = (\<not> (\<exists>err. resolveOnResponse parse opts rd = Reject err)))
         \<and> resolveOnResponse parse opts rd = ?exact"
    if lt: "statusCode rd < 300"
  proof -
    have ng: "\<not> ?gate" using lt by simp
    have same: "resolveOnResponse parse (opts\<lparr>doNotThrowOnErrorStatus := e, doNotThrowOnRedirectStatus := r\<rparr>) rd
           = resolveOnResponse parse opts rd"
      using lt by (simp add: resolveOnResponse_def Let_def)
    have exact: "resolveOnResponse parse opts rd = ?exact"
      unfolding open_gate[OF ng]
      by (cases "obj_get (headers_in rd) ''content-type''")
         (simp_all add: onStreamEnd_def split: option.splits)
    have rej: "(\<exists>err. resolveOnResponse parse opts rd = Reject err)
              = (\<not> downstream opts \<and> ?json \<and> parse ?txt = None)"
      unfolding exact by (simp split: option.splits)
    have kind: "\<forall>err. resolveOnResponse parse opts rd = Reject err
                 \<longrightarrow> code err = Some ''E_HTTP_REQUEST_INVALID_RESPONSE_BODY_FORMAT''"
      unfolding exact by (auto split: option.splits if_splits)
    have acc: "(\<exists>resp. resolveOnResponse parse opts rd = Accept resp \<and> status resp = statusCode rd)
              = (\<not> (\<exists>err. resolveOnResponse parse opts rd = Reject err))"
      unfolding exact by (auto split: option.splits if_splits)
    from same rej kind acc exact show ?thesis by (intro conjI)
  qed
  from iff low show ?thesis by blast
qed

text \<open>
  The claim as stated, that every response with a status below 300 succeeds, fails on the
  scenario of the repository's test "Rejects invalid JSON response accurately": status
  200, content type \<open>application/json\<close>, body \<open>Invalid JSON\<close>.
\<close>

theorem status_gate_counterexample:
  "resolveOnResponse sample_parse (defaults ''GET'')
      \<lparr>statusCode = 200, headers_in = [(''content-type'', ''application/json'')],
       chunks = [''Invalid JSON'']\<rparr>
    = Reject (Error (Some ''E_HTTP_REQUEST_INVALID_RESPONSE_BODY_FORMAT'') (Reason SyntaxError)
        (Some \<lparr>status = 200, headers = [(''content-type'', ''application/json'')],
               body = Some (JString ''Invalid JSON'')\<rparr>))"
  by (simp add: resolveOnResponse_def bufferResponseBody_def onStreamEnd_def defaults_def
        obj_get_def startsWith_def sample_parse_def)

text \<open>
  The property at work: a 404 is a status failure; an empty JSON 200 resolves under any
  flags; a 200 declared \<open>application/json\<close> with the body \<open>Invalid JSON\<close> is a
  body-format failure.
\<close>

theorem status_gate_witness:
  "(\<exists>err. resolveOnResponse sample_parse (defaults ''GET'')
              \<lparr>statusCode = 404, headers_in = [], chunks = [''gone'']\<rparr> = Reject err
          \<and> code err = Some ''E_HTTP_REQUEST_INVALID_RESPONSE_STATUS'')
   \<and> resolveOnResponse sample_parse
        ((defaults ''GET'')\<lparr>doNotThrowOnErrorStatus := True, doNotThrowOnRedirectStatus := True\<rparr>)
        \<lparr>statusCode = 200, headers_in = [(''content-type'', ''application/json'')], chunks = []\<rparr>
      = Accept \<lparr>status = 200, headers = [(''content-type'', ''application/json'')],
                body = Some (JObject [])\<rparr>
   \<and> (\<exists>err. resolveOnResponse sample_parse (defaults ''GET'')
              \<lparr>statusCode = 200, headers_in = [(''content-type'', ''application/json'')],
               chunks = [''Invalid'', '' JSON'']\<rparr> = Reject err
          \<and> code err = Some ''E_HTTP_REQUEST_INVALID_RESPONSE_BODY_FORMAT'')"
proof -
  let ?rd = "\<lparr>statusCode = 200, headers_in = [(''content-type'', ''application/json'')], chunks = []\<rparr>"
  let ?bad = "\<lparr>statusCode = 200, headers_in = [(''content-type'', ''application/json'')],
               chunks = [''Invalid'', '' JSON'']\<rparr>"
  note G = status_gate[of sample_parse "defaults ''GET''" "\<lparr>statusCode = 404, headers_in = [], chunks = [''gone'']\<rparr>" True True]
  note E = status_gate[of sample_parse "defaults ''GET''" ?rd True True]
  note B = status_gate[of sample_parse "defaults ''GET''" ?bad True True]
  have a: "\<exists>err. resolveOnResponse sample_parse (defaults ''GET'')
              \<lparr>statusCode = 404, headers_in = [], chunks = [''gone'']\<rparr> = Reject err
          \<and> code err = Some ''E_HTTP_REQUEST_INVALID_RESPONSE_STATUS''"
    using G[THEN conjunct1] by (simp add: defaults_def)
  have lt: "statusCode ?rd < 300" "statusCode ?bad < 300" by simp_all
  have e1: "resolveOnResponse sample_parse
        ((defaults ''GET'')\<lparr>doNotThrowOnErrorStatus := True, doNotThrowOnRedirectStatus := True\<rparr>) ?rd
      = resolveOnResponse sample_parse (defaults ''GET'') ?rd"
    using E[THEN conjunct2, rule_format, OF lt(1), THEN conjunct1] .
  have e2: "resolveOnResponse sample_parse (defaults ''GET'') ?rd
      = Accept \<lparr>status = 200, headers = [(''content-type'', ''application/json'')], body = Some (JObject [])\<rparr>"
    using E[THEN conjunct2, rule_format, OF lt(1), THEN conjunct2, THEN conjunct2, THEN conjunct2,
            THEN conjunct2]
    by (simp add: defaults_def obj_get_def startsWith_def sample_parse_def)
  have b1: "\<exists>err. resolveOnResponse sample_parse (defaults ''GET'') ?bad = Reject err"
    using B[THEN conjunct2, rule_format, OF lt(2), THEN conjunct2, THEN conjunct1]
    by (simp add: defaults_def obj_get_def startsWith_def sample_parse_def)
  have b2: "\<forall>err. resolveOnResponse sample_parse (defaults ''GET'') ?bad = Reject err
                 \<longrightarrow> code err = Some ''E_HTTP_REQUEST_INVALID_RESPONSE_BODY_FORMAT''"
    using B[THEN conjunct2, rule_format, OF lt(2), THEN conjunct2, THEN conjunct2, THEN conjunct1] .
  have b: "\<exists>err. resolveOnResponse sample_parse (defaults ''GET'') ?bad = Reject err
          \<and> code err = Some ''E_HTTP_REQUEST_INVALID_RESPONSE_BODY_FORMAT''"
    using b1 b2 by blast
  from a e1 e2 b show ?thesis by (simp only: simp_thms)
qed

text \<open>
  When the body stream of a response fails instead of ending, the listener of its
  \<open>error\<close> event throws a \<open>ReferenceError\<close> and the attempt is neither fulfilled nor
  rejected, for a gated status and for a buffered body alike, in \<open>src/index.js\<close> and in
  the revision; no \<open>E_HTTP_REQUEST_DOWNSTREAM_ERROR\<close> failure reaches the caller. With a
  sink, a response that passes the gate is accepted before its body is read.
\<close>

lemma body_stream_error_is_uncaught:
  "on_event parse opts (Interrupted rd reason)
     = (if \<not> ((400 \<le> statusCode rd \<and> \<not> doNotThrowOnErrorStatus opts)
               \<or> (300 \<le> statusCode rd \<and> statusCode rd < 400 \<and> \<not> doNotThrowOnRedirectStatus opts))
           \<and> downstream opts
        then Accept \<lparr>status = statusCode rd, headers = headers_in rd, body = None\<rparr>
        else Uncaught ReferenceError)
   \<and> on_event_rev2 parse opts (Interrupted rd reason) = on_event parse opts (Interrupted rd reason)
   \<and> (\<forall>err. on_event parse opts (Interrupted rd reason) \<noteq> Reject err)"
  by (auto simp: on_event_def on_event_rev2_def resolveOnResponse_interrupted_def
        bufferResponseBody_error_def onStreamError_def Let_def)

text \<open>
  A retry loop whose first attempt is left unsettled in this way neither returns nor
  throws, whatever its budget.
\<close>

lemma unsettled_attempt_stalls_the_loop:
  "fetch ((defaults ''GET'')\<lparr>retryOnDownstreamError := True\<rparr>)
     (\<lambda>i. on_event sample_parse ((defaults ''GET'')\<lparr>retryOnDownstreamError := True\<rparr>)
            (Interrupted \<lparr>statusCode = 200, headers_in = [], chunks = [''par'']\<rparr>
               (Error (Some ''ECONNRESET'') NoCause None)))
   = (Pending ReferenceError, \<lparr>attempts = 1, errorTrace = [], waits = []\<rparr>)"
proof -
  let ?o = "(defaults ''GET'')\<lparr>retryOnDownstreamError := True\<rparr>"
  have n: "nat \<bar>\<lfloor>retry ?o\<rfloor>\<bar> = Suc (Suc (Suc 0))" by (simp add: defaults_def)
  have nz: "retry ?o \<noteq> 0" by (simp add: defaults_def)
  have a: "on_event sample_parse ?o
            (Interrupted \<lparr>statusCode = 200, headers_in = [], chunks = [''par'']\<rparr>
               (Error (Some ''ECONNRESET'') NoCause None)) = Uncaught ReferenceError"
    by (simp add: on_event_def resolveOnResponse_interrupted_def bufferResponseBody_error_def
          onStreamError_def defaults_def Let_def)
  show ?thesis
    unfolding fetch_def resolveRetryLoop_def n if_P[OF nz] a
    by (simp add: loop_Suc del: resolveRetryLoop_while.simps(2))
qed

section \<open>The session guard\<close>




section \<open>Transfer framing\<close>

lemma framing_header:
  "createBodyHeaderDelimiter b True = Inr [(''transfer-encoding'', Str ''chunked'')]
   \<and> createBodyHeaderDelimiter (Some s) False = Inr [(''content-length'', Num (length s))]
   \<and> createBodyHeaderDelimiter (Some []) False = Inr [(''content-length'', Num 0)]
   \<and> createBodyHeaderDelimiter_rev2 b True = [(''transfer-encoding'', Str ''chunked'')]
   \<and> createBodyHeaderDelimiter_rev2 (Some s) False = [(''content-length'', Num (length s))]
   \<and> createBodyHeaderDelimiter_rev2 None False = [(''content-length'', Num 0)]"
  by (simp add: createBodyHeaderDelimiter_def createBodyHeaderDelimiter_rev2_def)

text \<open>
  The transport of \<open>src/index.js\<close> for an \<open>https\<close> URL without session: the test
  \<open>url.protocol === 'https:'\<close> reads a property of a string, \<open>http.request\<close> is chosen
  and refuses the URL, and the attempt is rejected with nothing handed to the transport.
  The revision tests \<open>url.startsWith('https:')\<close> and hands the request over.
\<close>

lemma https_url_without_session:
  "resolve sample_platform None ((defaults ''GET'')\<lparr>url := ''https://localhost/''\<rparr>) ev
     = (Reject (Error (Some ''ERR_INVALID_PROTOCOL'') NoCause None), [])
   \<and> resolve_rev2 sample_platform None ((defaults ''GET'')\<lparr>url := ''https://localhost/''\<rparr>) ev
     = (on_event_rev2 sample_parse ((defaults ''GET'')\<lparr>url := ''https://localhost/''\<rparr>) ev,
        [\<lparr>via = HTTP1, sent_method = ''GET'', sent_url = ''https://localhost/'',
          sent_headers = [(''content-length'', Num 0)], sent_body = Some [], piped = None\<rparr>])"
  by (simp add: resolve_def resolve_rev2_def normalizeHeaders_def normalizeBody_def normalizeUrl_def
        createBodyHeaderDelimiter_def createBodyHeaderDelimiter_rev2_def Object_assign_def
        resolveHttp1Client_def resolveHttp1Client_rev2_def write_body_def
        obj_get_def obj_set_def obj_define_def startsWith_def defaults_def Let_def sample_platform_def)

lemma utf8_length_ascii: "list_all (\<lambda>c. (of_char c :: nat) < 128) s \<Longrightarrow> utf8_length s = length s"
  by (induction s) (auto simp: utf8_length_def)

text \<open>
  C6. What the code does for a body outside ASCII: the one-character body of code unit 0xE9
  (e with an acute accent) written without upstream stream and without session gets the header
  \<open>content-length: 1\<close>, the number of code units of the string, while the transport
  writes two bytes for it.
\<close>

theorem content_length_counts_code_units:
  "createBodyHeaderDelimiter (Some [CHR 0xE9]) False = Inr [(''content-length'', Num 1)]
   \<and> utf8_length [CHR 0xE9] = 2
   \<and> resolve (pf\<lparr>URL_new := (\<lambda>u b. Some u)\<rparr>) None
        ((defaults ''POST'')\<lparr>url := ''http://localhost/'', body_option := Some (JString [CHR 0xE9])\<rparr>) ev
      = (on_event (JSON_parse pf)
           ((defaults ''POST'')\<lparr>url := ''http://localhost/'', body_option := Some (JString [CHR 0xE9])\<rparr>) ev,
         [\<lparr>via = HTTP1, sent_method = ''POST'', sent_url = ''http://localhost/'',
           sent_headers = [(''content-length'', Num 1)],
           sent_body = Some [CHR 0xE9], piped = None\<rparr>])"
  by (simp add: createBodyHeaderDelimiter_def utf8_length_def resolve_def normalizeHeaders_def
        normalizeBody_def normalizeUrl_def Object_assign_def resolveHttp1Client_def write_body_def
        obj_get_def obj_set_def obj_define_def startsWith_def defaults_def Let_def)


text \<open>The same on one closed input: the exchange is closed by the peer after the request was written.\<close>

theorem content_length_counts_code_units_witness:
  "resolve sample_platform None
        ((defaults ''POST'')\<lparr>url := ''http://localhost/'', body_option := Some (JString [CHR 0xE9])\<rparr>)
        Close
      = (Reject (Error (Some ''E_HTTP_REQUEST_CLIENT_ERROR'') NoCause None),
         [\<lparr>via = HTTP1, sent_method = ''POST'', sent_url = ''http://localhost/'',
           sent_headers = [(''content-length'', Num 1)],
           sent_body = Some [CHR 0xE9], piped = None\<rparr>])
   \<and> utf8_length [CHR 0xE9] = 2"
  using content_length_counts_code_units[of
      sample_platform Close]
  by (simp add: on_event_def connectionClosed_def sample_platform_def)

section \<open>Decoding by content type\<close>

lemma split_from_at_separator:
  assumes "sep \<noteq> []" and "hd sep \<notin> set a"
  shows "split_from sep cur (a @ sep @ rest) = (cur @ a) # split_from sep [] rest"
  using assms(2)
proof (induction a arbitrary: cur)
  case Nil
  show ?case using assms(1) by (subst split_from.simps) simp
next
  case (Cons c a)
  have ne: "take (length sep) (c # a @ sep @ rest) \<noteq> sep"
  proof
    assume "take (length sep) (c # a @ sep @ rest) = sep"
    then have "hd sep = hd (take (length sep) (c # a @ sep @ rest))" by simp
    also have "\<dots> = c" using assms(1) by (cases sep) simp_all
    finally show False using Cons.prems by simp
  qed
  have "split_from sep cur ((c # a) @ sep @ rest) = split_from sep (cur @ [c]) (a @ sep @ rest)"
    using assms(1) ne by (subst split_from.simps) simp
  also have "\<dots> = ((cur @ [c]) @ a) # split_from sep [] rest"
    using Cons.prems by (intro Cons.IH) simp
  finally show ?case by simp
qed

lemma split_from_no_separator:
  assumes "sep \<noteq> []" and "hd sep \<notin> set a"
  shows "split_from sep cur a = [cur @ a]"
  using assms(2)
proof (induction a arbitrary: cur)
  case Nil
  show ?case using assms(1) by (subst split_from.simps) simp
next
  case (Cons c a)
  have ne: "take (length sep) (c # a) \<noteq> sep"
  proof
    assume "take (length sep) (c # a) = sep"
    then have "hd sep = hd (take (length sep) (c # a))" by simp
    also have "\<dots> = c" using assms(1) by (cases sep) simp_all
    finally show False using Cons.prems by simp
  qed
  have "split_from sep cur (c # a) = split_from sep (cur @ [c]) a"
    using assms(1) ne by (subst split_from.simps) simp
  also have "\<dots> = [(cur @ [c]) @ a]"
    using Cons.prems by (intro Cons.IH) simp
  finally show ?case by simp
qed

lemma event_field_named:
  assumes "CHR '':'' \<notin> set name"
  shows "event_field parse (name @ CHR '':'' # v)
           = (name, case parse (trim v) of Some parsed \<Rightarrow> parsed | None \<Rightarrow> JString (trim v))"
proof -
  have tw: "takeWhile (\<lambda>x. x \<noteq> CHR '':'') (name @ CHR '':'' # v) = name"
    using assms by (induction name) auto
  have i: "indexOf (name @ CHR '':'' # v) CHR '':'' = int (length name)"
    by (simp add: indexOf_def tw)
  have p: "slice (name @ CHR '':'' # v) 0 (Some (int (length name))) = name"
    by (simp add: slice_def Let_def)
  have r: "slice (name @ CHR '':'' # v) (int (length name) + 1) None = v"
    by (simp add: slice_def Let_def nat_add_distrib)
  show ?thesis
    by (simp add: event_field_def i p r Let_def split: option.splits)
qed

lemma trim_id:
  assumes "s \<noteq> []" and "\<not> is_space (hd s)" and "\<not> is_space (last s)"
  shows "trim s = s"
proof -
  have a: "dropWhile is_space s = s" using assms(1,2) by (cases s) simp_all
  have "rev s \<noteq> []" and "\<not> is_space (hd (rev s))" using assms(1,3) by (simp_all add: hd_rev)
  then have b: "dropWhile is_space (rev s) = rev s" by (cases "rev s") simp_all
  show ?thesis by (simp add: trim_def a b)
qed

lemma trim_strip:
  assumes "s \<noteq> []" and "\<not> is_space (hd s)" and "\<not> is_space (last s)"
    and "list_all is_space pre" and "list_all is_space post"
  shows "trim (pre @ s @ post) = s"
proof -
  have a: "dropWhile is_space (pre @ s @ post) = s @ post"
  proof -
    have "dropWhile is_space (pre @ s @ post) = dropWhile is_space (s @ post)"
      using assms(4) by (intro dropWhile_append2) (simp add: list_all_iff)
    also have "\<dots> = s @ post" using assms(1,2) by (cases s) simp_all
    finally show ?thesis .
  qed
  have b: "dropWhile is_space (rev post @ rev s) = rev s"
  proof -
    have "dropWhile is_space (rev post @ rev s) = dropWhile is_space (rev s)"
      using assms(5) by (intro dropWhile_append2) (simp add: list_all_iff)
    also have "\<dots> = rev s"
    proof -
      have "rev s \<noteq> []" and "\<not> is_space (hd (rev s))" using assms(1,3) by (simp_all add: hd_rev)
      then show ?thesis by (cases "rev s") simp_all
    qed
    finally show ?thesis .
  qed
  show ?thesis by (simp add: trim_def a b)
qed

lemma event_stream_is_not_json:
  "startsWith ct ''text/event-stream'' \<Longrightarrow> \<not> startsWith ct ''application/json''"
  by (cases ct) (auto simp: startsWith_def)

lemma fromEntries_single: "Object_fromEntries [(k, v)] = [(k, v)]"
  by (simp add: Object_fromEntries_def obj_define_def)

lemma two_events:
  assumes n1: "CHR '':'' \<notin> set n1" "CHR 0x0A \<notin> set n1" "n1 \<noteq> []" "\<not> is_space (hd n1)"
    and v1: "CHR 0x0A \<notin> set v1"
    and n2: "CHR '':'' \<notin> set n2" "CHR 0x0A \<notin> set n2"
    and v2: "CHR 0x0A \<notin> set v2" "v2 \<noteq> []" "\<not> is_space (last v2)"
    and p1: "parse (trim v1) = Some (JNumber x1)" and p2: "parse (trim v2) = Some (JNumber x2)"
  shows "contentTypeTextEventStream parse
           (n1 @ CHR '':'' # v1 @ [CHR 0x0A, CHR 0x0A] @ n2 @ CHR '':'' # v2)
         = JArray [JObject [(n1, JNumber x1)], JObject [(n2, JNumber x2)]]"
proof -
  let ?f1 = "n1 @ CHR '':'' # v1" and ?f2 = "n2 @ CHR '':'' # v2"
  let ?b = "?f1 @ [CHR 0x0A, CHR 0x0A] @ ?f2"
  have t: "trim ?b = ?b"
  proof (rule trim_id)
    show "?b \<noteq> []" using n1(3) by simp
    show "\<not> is_space (hd ?b)" using n1(3,4) by simp
    show "\<not> is_space (last ?b)" using v2(2,3) by simp
  qed
  have nl1: "CHR 0x0A \<notin> set ?f1" using n1(2) v1 by simp
  have nl2: "CHR 0x0A \<notin> set ?f2" using n2(2) v2(1) by simp
  have s: "split ?b [CHR 0x0A, CHR 0x0A] = [?f1, ?f2]"
    unfolding split_def
    using split_from_at_separator[of "[CHR 0x0A, CHR 0x0A]" ?f1 "[]" ?f2]
      split_from_no_separator[of "[CHR 0x0A, CHR 0x0A]" ?f2 "[]"] nl1 nl2
    by simp
  have s1: "split ?f1 [CHR 0x0A] = [?f1]"
    unfolding split_def using split_from_no_separator[of "[CHR 0x0A]" ?f1 "[]"] nl1 by simp
  have s2: "split ?f2 [CHR 0x0A] = [?f2]"
    unfolding split_def using split_from_no_separator[of "[CHR 0x0A]" ?f2 "[]"] nl2 by simp
  have e1: "event_field parse ?f1 = (n1, JNumber x1)"
    by (simp add: event_field_named[OF n1(1)] p1)
  have e2: "event_field parse ?f2 = (n2, JNumber x2)"
    by (simp add: event_field_named[OF n2(1)] p2)
  have eq: "n1 @ CHR '':'' # v1 @ [CHR 0x0A, CHR 0x0A] @ n2 @ CHR '':'' # v2 = ?b" by simp
  have "contentTypeTextEventStream parse ?b
          = JArray [JObject (Object_fromEntries (map (event_field parse) (split ?f1 [CHR 0x0A]))),
                    JObject (Object_fromEntries (map (event_field parse) (split ?f2 [CHR 0x0A])))]"
    unfolding contentTypeTextEventStream_def t s by simp
  also have "\<dots> = JArray [JObject [(n1, JNumber x1)], JObject [(n2, JNumber x2)]]"
    unfolding s1 s2 by (simp add: e1 e2 fromEntries_single)
  finally show ?thesis unfolding eq .
qed

lemma split_from_skip:
  assumes "sep \<noteq> []" and "hd sep \<notin> set a"
  shows "split_from sep cur (a @ s) = split_from sep (cur @ a) s"
  using assms(2)
proof (induction a arbitrary: cur)
  case Nil
  show ?case by simp
next
  case (Cons c a)
  have ne: "take (length sep) (c # a @ s) \<noteq> sep"
  proof
    assume "take (length sep) (c # a @ s) = sep"
    then have "hd sep = hd (take (length sep) (c # a @ s))" by simp
    also have "\<dots> = c" using assms(1) by (cases sep) simp_all
    finally show False using Cons.prems by simp
  qed
  have "split_from sep cur ((c # a) @ s) = split_from sep (cur @ [c]) (a @ s)"
    using assms(1) ne by (subst split_from.simps) simp
  also have "\<dots> = split_from sep ((cur @ [c]) @ a) s"
    using Cons.prems by (intro Cons.IH) simp
  finally show ?case by simp
qed

lemma split_from_single_line_feed:
  assumes "s \<noteq> []" and "hd s \<noteq> CHR 0x0A"
  shows "split_from [CHR 0x0A, CHR 0x0A] cur (CHR 0x0A # s)
           = split_from [CHR 0x0A, CHR 0x0A] (cur @ [CHR 0x0A]) s"
proof -
  obtain c r where s: "s = c # r" using assms(1) by (cases s) auto
  have c: "c \<noteq> CHR 0x0A" using assms(2) s by simp
  show ?thesis unfolding s using c by (subst split_from.simps) simp
qed

lemma split_lines:
  assumes "fs \<noteq> []" and "\<forall>f \<in> set fs. CHR 0x0A \<notin> set f"
  shows "split_from [CHR 0x0A] cur (join [CHR 0x0A] fs) = (cur @ hd fs) # tl fs"
  using assms
proof (induction "[CHR 0x0A]" fs arbitrary: cur rule: join.induct)
  case 1
  then show ?case by simp
next
  case (2 x)
  then show ?case using split_from_no_separator[of "[CHR 0x0A]" x cur] by simp
next
  case (3 x y xs)
  have "split_from [CHR 0x0A] cur (x @ [CHR 0x0A] @ join [CHR 0x0A] (y # xs))
          = (cur @ x) # split_from [CHR 0x0A] [] (join [CHR 0x0A] (y # xs))"
    using "3.prems"(2) by (intro split_from_at_separator) simp_all
  also have "split_from [CHR 0x0A] [] (join [CHR 0x0A] (y # xs)) = ([] @ hd (y # xs)) # tl (y # xs)"
    using "3.prems"(2) by (intro "3.hyps") simp_all
  finally show ?case by simp
qed

lemma hd_join:
  "parts \<noteq> [] \<Longrightarrow> hd parts \<noteq> [] \<Longrightarrow> hd (join sep parts) = hd (hd parts)"
  by (induction sep parts rule: join.induct) simp_all

lemma join_nonempty:
  "parts \<noteq> [] \<Longrightarrow> hd parts \<noteq> [] \<Longrightarrow> join sep parts \<noteq> []"
  by (induction sep parts rule: join.induct) simp_all

lemma join_nonempty_last:
  "parts \<noteq> [] \<Longrightarrow> last parts \<noteq> [] \<Longrightarrow> join sep parts \<noteq> []"
  by (induction sep parts rule: join.induct) simp_all

lemma last_join:
  "parts \<noteq> [] \<Longrightarrow> last parts \<noteq> [] \<Longrightarrow> last (join sep parts) = last (last parts)"
proof (induction sep parts rule: join.induct)
  case (1 sep)
  then show ?case by simp
next
  case (2 sep x)
  then show ?case by simp
next
  case (3 sep x y xs)
  have l: "last (y # xs) \<noteq> []" using "3.prems"(2) by simp
  have ne: "join sep (y # xs) \<noteq> []" using l by (intro join_nonempty_last) simp_all
  have "last (join sep (x # y # xs)) = last (join sep (y # xs))" using ne by simp
  also have "\<dots> = last (last (y # xs))" using l by (intro "3.IH") simp_all
  finally show ?case by simp
qed

lemma split_event:
  assumes "fs \<noteq> []" and "\<forall>f \<in> set fs. f \<noteq> [] \<and> CHR 0x0A \<notin> set f"
  shows "split_from [CHR 0x0A, CHR 0x0A] cur (join [CHR 0x0A] fs)
           = [cur @ join [CHR 0x0A] fs]
     \<and> split_from [CHR 0x0A, CHR 0x0A] cur (join [CHR 0x0A] fs @ [CHR 0x0A, CHR 0x0A] @ rest)
           = (cur @ join [CHR 0x0A] fs) # split_from [CHR 0x0A, CHR 0x0A] [] rest"
  using assms
proof (induction "[CHR 0x0A]" fs arbitrary: cur rule: join.induct)
  case 1
  then show ?case by simp
next
  case (2 x)
  have nl: "hd [CHR 0x0A, CHR 0x0A] \<notin> set x" using "2.prems"(2) by simp
  show ?case
    using split_from_no_separator[OF _ nl, of cur] split_from_at_separator[OF _ nl, of cur rest]
    by simp
next
  case (3 x y xs)
  let ?sep = "[CHR 0x0A, CHR 0x0A]"
  let ?tail = "join [CHR 0x0A] (y # xs)"
  have nl: "hd ?sep \<notin> set x" using "3.prems"(2) by simp
  have y: "y \<noteq> []" "hd y \<noteq> CHR 0x0A"
  proof -
    show "y \<noteq> []" using "3.prems"(2) by simp
    then have "hd y \<in> set y" by simp
    moreover have "CHR 0x0A \<notin> set y" using "3.prems"(2) by simp
    ultimately show "hd y \<noteq> CHR 0x0A" by metis
  qed
  have t: "?tail \<noteq> []" "hd ?tail \<noteq> CHR 0x0A"
    using y by (simp_all add: join_nonempty hd_join)
  have ih: "split_from ?sep c ?tail = [c @ ?tail]
     \<and> split_from ?sep c (?tail @ ?sep @ rest) = (c @ ?tail) # split_from ?sep [] rest" for c
    using "3.prems"(2) by (intro "3.hyps") simp_all
  have a: "split_from ?sep cur (x @ CHR 0x0A # s) = split_from ?sep (cur @ x @ [CHR 0x0A]) s"
    if "s \<noteq> []" "hd s \<noteq> CHR 0x0A" for s
  proof -
    have "split_from ?sep cur (x @ CHR 0x0A # s) = split_from ?sep (cur @ x) (CHR 0x0A # s)"
      using nl by (intro split_from_skip) simp_all
    also have "\<dots> = split_from ?sep ((cur @ x) @ [CHR 0x0A]) s"
      using that by (rule split_from_single_line_feed)
    finally show ?thesis by simp
  qed
  have one: "split_from ?sep cur (join [CHR 0x0A] (x # y # xs)) = [cur @ join [CHR 0x0A] (x # y # xs)]"
    using a[OF t] ih[THEN conjunct1, of "cur @ x @ [CHR 0x0A]"] by simp
  have t2: "?tail @ ?sep @ rest \<noteq> []" "hd (?tail @ ?sep @ rest) \<noteq> CHR 0x0A"
    using t by simp_all
  have two: "split_from ?sep cur (join [CHR 0x0A] (x # y # xs) @ ?sep @ rest)
           = (cur @ join [CHR 0x0A] (x # y # xs)) # split_from ?sep [] rest"
    using a[OF t2] ih[THEN conjunct2, of "cur @ x @ [CHR 0x0A]"] by simp
  from one two show ?case by (rule conjI)
qed

lemma split_events:
  assumes "events \<noteq> []"
    and "\<forall>fs \<in> set events. fs \<noteq> [] \<and> (\<forall>f \<in> set fs. f \<noteq> [] \<and> CHR 0x0A \<notin> set f)"
  shows "split_from [CHR 0x0A, CHR 0x0A] [] (join [CHR 0x0A, CHR 0x0A] (map (join [CHR 0x0A]) events))
           = map (join [CHR 0x0A]) events"
  using assms
proof (induction events rule: list_nonempty_induct)
  case (single x)
  then show ?case using split_event[of x "[]", THEN conjunct1] by simp
next
  case (cons x xs)
  obtain y ys where xs: "xs = y # ys" using cons.hyps by (cases xs) auto
  have "split_from [CHR 0x0A, CHR 0x0A] []
          (join [CHR 0x0A] x @ [CHR 0x0A, CHR 0x0A] @ join [CHR 0x0A, CHR 0x0A] (map (join [CHR 0x0A]) xs))
        = ([] @ join [CHR 0x0A] x)
            # split_from [CHR 0x0A, CHR 0x0A] [] (join [CHR 0x0A, CHR 0x0A] (map (join [CHR 0x0A]) xs))"
    using cons.prems by (intro split_event[THEN conjunct2]) simp_all
  also have "split_from [CHR 0x0A, CHR 0x0A] [] (join [CHR 0x0A, CHR 0x0A] (map (join [CHR 0x0A]) xs))
        = map (join [CHR 0x0A]) xs"
    using cons.prems by (intro cons.IH) simp
  finally show ?case by (simp add: xs)
qed

lemma event_stream_of_events:
  assumes ne: "events \<noteq> []"
    and wf: "\<forall>fs \<in> set events. fs \<noteq> [] \<and> (\<forall>f \<in> set fs. f \<noteq> [] \<and> CHR 0x0A \<notin> set f)"
    and first: "\<not> is_space (hd (hd (hd events)))"
    and final: "\<not> is_space (last (last (last events)))"
    and pre: "list_all is_space pre" and post: "list_all is_space post"
  shows "contentTypeTextEventStream parse
           (pre @ join [CHR 0x0A, CHR 0x0A] (map (join [CHR 0x0A]) events) @ post)
         = JArray (map (\<lambda>fields. JObject (Object_fromEntries (map (event_field parse) fields))) events)"
proof -
  let ?texts = "map (join [CHR 0x0A]) events"
  let ?b = "join [CHR 0x0A, CHR 0x0A] ?texts"
  have tne: "?texts \<noteq> []" using ne by simp
  have each: "join [CHR 0x0A] fs \<noteq> []" if "fs \<in> set events" for fs
    using wf that by (intro join_nonempty) (auto intro: hd_in_set)
  have h1: "hd ?texts \<noteq> []" using ne each by (simp add: hd_map)
  have l1: "last ?texts \<noteq> []" using ne each by (simp add: last_map)
  have hd_b: "hd ?b = hd (hd (hd events))"
  proof -
    have "hd ?b = hd (hd ?texts)" using tne h1 by (rule hd_join)
    also have "hd ?texts = join [CHR 0x0A] (hd events)" using ne by (simp add: hd_map)
    also have "hd (join [CHR 0x0A] (hd events)) = hd (hd (hd events))"
      using wf ne by (intro hd_join) (auto intro: hd_in_set)
    finally show ?thesis .
  qed
  have last_b: "last ?b = last (last (last events))"
  proof -
    have "last ?b = last (last ?texts)" using tne l1 by (rule last_join)
    also have "last ?texts = join [CHR 0x0A] (last events)" using ne by (simp add: last_map)
    also have "last (join [CHR 0x0A] (last events)) = last (last (last events))"
    proof (rule last_join)
      have le: "last events \<in> set events" using ne by simp
      show "last events \<noteq> []" using wf le by blast
      then have "last (last events) \<in> set (last events)" by simp
      then show "last (last events) \<noteq> []" using wf le by blast
    qed
    finally show ?thesis .
  qed
  have bne: "?b \<noteq> []" using tne h1 by (rule join_nonempty)
  have t: "trim (pre @ ?b @ post) = ?b"
    using bne _ _ pre post by (rule trim_strip) (simp_all add: hd_b last_b first final)
  have s: "split ?b [CHR 0x0A, CHR 0x0A] = ?texts"
    unfolding split_def using ne wf by (rule split_events)
  have f: "split (join [CHR 0x0A] fs) [CHR 0x0A] = fs" if "fs \<in> set events" for fs
  proof -
    have a: "fs \<noteq> []" and b: "\<forall>f \<in> set fs. CHR 0x0A \<notin> set f" using wf that by auto
    show ?thesis unfolding split_def split_lines[OF a b] using a by simp
  qed
  show ?thesis
    unfolding contentTypeTextEventStream_def t s by (simp add: f)
qed

text \<open>
  C10. A response that passes the status gate, without downstream sink, whose content
  type starts with \<open>application/json\<close> and whose buffered body is the empty string,
  resolves with the empty object as its body, in \<open>src/index.js\<close> and in the revision:
  the text \<open>{}\<close> is parsed in place of the empty body. \<open>JSON.parse\<close> is a parameter,
  known to parse \<open>{}\<close> to the empty object.
\<close>

theorem empty_json_body_decodes_to_empty_object:
  assumes "parse ''{}'' = Some (JObject [])"
    and "obj_get (headers_in rd) ''content-type'' = Some contentType"
    and "startsWith contentType ''application/json''"
    and "foldl (@) [] (chunks rd) = []"
    and "\<not> (400 \<le> statusCode rd \<and> \<not> doNotThrowOnErrorStatus opts)"
    and "\<not> (300 \<le> statusCode rd \<and> \<not> doNotThrowOnRedirectStatus opts \<and> statusCode rd < 400)"
    and "\<not> downstream opts"
  shows "resolveOnResponse parse opts rd
           = Accept \<lparr>status = statusCode rd, headers = headers_in rd, body = Some (JObject [])\<rparr>
     \<and> resolveOnResponse_rev2 parse opts rd
           = Accept \<lparr>status = statusCode rd, headers = headers_in rd, body = Some (JObject [])\<rparr>
     \<and> contentTypeApplicationJson parse [] = Inr (JObject [])"
proof -
  have a: "resolveOnResponse parse opts rd
           = Accept \<lparr>status = statusCode rd, headers = headers_in rd, body = Some (JObject [])\<rparr>"
    using assms
    by (simp add: resolveOnResponse_def bufferResponseBody_def onStreamEnd_def Let_def)
  have c: "contentTypeApplicationJson parse [] = Inr (JObject [])"
    using assms(1) by (simp add: contentTypeApplicationJson_def)
  have b: "resolveOnResponse_rev2 parse opts rd
           = Accept \<lparr>status = statusCode rd, headers = headers_in rd, body = Some (JObject [])\<rparr>"
    using assms(2-7) c
    by (simp add: resolveOnResponse_rev2_def bufferResponseBody_rev2_def onStreamEnd_rev2_def Let_def)
  from a b c show ?thesis by simp
qed

text \<open>The property at work: an empty 200 response declared \<open>application/json; charset=utf-8\<close>.\<close>

theorem empty_json_body_decodes_to_empty_object_witness:
  "resolveOnResponse sample_parse (defaults ''GET'')
      \<lparr>statusCode = 200, headers_in = [(''content-type'', ''application/json; charset=utf-8'')],
       chunks = []\<rparr>
     = Accept \<lparr>status = 200, headers = [(''content-type'', ''application/json; charset=utf-8'')],
               body = Some (JObject [])\<rparr>"
  using empty_json_body_decodes_to_empty_object[of sample_parse
      "\<lparr>statusCode = 200, headers_in = [(''content-type'', ''application/json; charset=utf-8'')], chunks = []\<rparr>"
      "''application/json; charset=utf-8''" "defaults ''GET''"]
  by (simp add: sample_parse_def obj_get_def startsWith_def defaults_def)

text \<open>
  C9 (as amended). In the revision in \<open>src/unnamed/part_000\<close>, a response that passes
  the status gate, without downstream sink, whose content type starts with
  \<open>text/event-stream\<close>, resolves with its buffered body decoded into the list of its
  event records, in order. For a body made of events separated by blank lines, each event
  made of non-empty fields separated by line feeds, with white space around the first and
  the last field only outside of them, the result holds one record per event, in order,
  made of the entries of the event's fields. A field \<open>name:value\<close> gives the entry of \<open>name\<close> with
  the trimmed value parsed as JSON when it parses and kept as text otherwise. In
  particular a body of two events separated by a blank line, each of one field whose
  trimmed value parses to a number, decodes to the two records in order, with the numbers
  as values. In \<open>src/index.js\<close>, which has no decoder for event streams, such a response
  resolves with the buffered text as it is.
\<close>

theorem event_stream_body_decodes_to_event_records:
  assumes "obj_get (headers_in rd) ''content-type'' = Some contentType"
    and "startsWith contentType ''text/event-stream''"
    and "\<not> (400 \<le> statusCode rd \<and> \<not> doNotThrowOnErrorStatus opts)"
    and "\<not> (300 \<le> statusCode rd \<and> \<not> doNotThrowOnRedirectStatus opts \<and> statusCode rd < 400)"
    and "\<not> downstream opts"
  shows "resolveOnResponse_rev2 parse opts rd
           = Accept \<lparr>status = statusCode rd, headers = headers_in rd,
                     body = Some (contentTypeTextEventStream parse (foldl (@) [] (chunks rd)))\<rparr>
     \<and> (events \<noteq> []
          \<and> (\<forall>fs \<in> set events. fs \<noteq> [] \<and> (\<forall>f \<in> set fs. f \<noteq> [] \<and> CHR 0x0A \<notin> set f))
          \<and> \<not> is_space (hd (hd (hd events))) \<and> \<not> is_space (last (last (last events)))
          \<and> list_all is_space pre \<and> list_all is_space post \<longrightarrow>
          contentTypeTextEventStream parse
              (pre @ join [CHR 0x0A, CHR 0x0A] (map (join [CHR 0x0A]) events) @ post)
            = JArray (map (\<lambda>fields. JObject (Object_fromEntries (map (event_field parse) fields)))
                        events))
     \<and> (CHR '':'' \<notin> set name \<longrightarrow>
          event_field parse (name @ CHR '':'' # v)
            = (name, case parse (trim v) of Some parsed \<Rightarrow> parsed | None \<Rightarrow> JString (trim v)))
     \<and> (CHR '':'' \<notin> set n1 \<and> CHR 0x0A \<notin> set n1 \<and> n1 \<noteq> [] \<and> \<not> is_space (hd n1)
          \<and> CHR 0x0A \<notin> set v1
          \<and> CHR '':'' \<notin> set n2 \<and> CHR 0x0A \<notin> set n2
          \<and> CHR 0x0A \<notin> set v2 \<and> v2 \<noteq> [] \<and> \<not> is_space (last v2)
          \<and> parse (trim v1) = Some (JNumber x1) \<and> parse (trim v2) = Some (JNumber x2) \<longrightarrow>
          contentTypeTextEventStream parse
              (n1 @ CHR '':'' # v1 @ [CHR 0x0A, CHR 0x0A] @ n2 @ CHR '':'' # v2)
            = JArray [JObject [(n1, JNumber x1)], JObject [(n2, JNumber x2)]])
     \<and> resolveOnResponse parse opts rd
           = Accept \<lparr>status = statusCode rd, headers = headers_in rd,
                     body = Some (JString (foldl (@) [] (chunks rd)))\<rparr>"
proof -
  have nj: "\<not> startsWith contentType ''application/json''"
    using assms(2) by (rule event_stream_is_not_json)
  have a: "resolveOnResponse_rev2 parse opts rd
           = Accept \<lparr>status = statusCode rd, headers = headers_in rd,
                     body = Some (contentTypeTextEventStream parse (foldl (@) [] (chunks rd)))\<rparr>"
    using assms nj
    by (simp add: resolveOnResponse_rev2_def bufferResponseBody_rev2_def onStreamEnd_rev2_def Let_def)
  have b: "events \<noteq> []
          \<and> (\<forall>fs \<in> set events. fs \<noteq> [] \<and> (\<forall>f \<in> set fs. f \<noteq> [] \<and> CHR 0x0A \<notin> set f))
          \<and> \<not> is_space (hd (hd (hd events))) \<and> \<not> is_space (last (last (last events)))
          \<and> list_all is_space pre \<and> list_all is_space post \<longrightarrow>
          contentTypeTextEventStream parse
              (pre @ join [CHR 0x0A, CHR 0x0A] (map (join [CHR 0x0A]) events) @ post)
            = JArray (map (\<lambda>fields. JObject (Object_fromEntries (map (event_field parse) fields)))
                        events)"
    using event_stream_of_events[of events pre post parse] by blast
  have c: "CHR '':'' \<notin> set name \<longrightarrow>
          event_field parse (name @ CHR '':'' # v)
            = (name, case parse (trim v) of Some parsed \<Rightarrow> parsed | None \<Rightarrow> JString (trim v))"
    using event_field_named[of name parse v] by blast
  have d: "CHR '':'' \<notin> set n1 \<and> CHR 0x0A \<notin> set n1 \<and> n1 \<noteq> [] \<and> \<not> is_space (hd n1)
          \<and> CHR 0x0A \<notin> set v1
          \<and> CHR '':'' \<notin> set n2 \<and> CHR 0x0A \<notin> set n2
          \<and> CHR 0x0A \<notin> set v2 \<and> v2 \<noteq> [] \<and> \<not> is_space (last v2)
          \<and> parse (trim v1) = Some (JNumber x1) \<and> parse (trim v2) = Some (JNumber x2) \<longrightarrow>
          contentTypeTextEventStream parse
              (n1 @ CHR '':'' # v1 @ [CHR 0x0A, CHR 0x0A] @ n2 @ CHR '':'' # v2)
            = JArray [JObject [(n1, JNumber x1)], JObject [(n2, JNumber x2)]]"
    using two_events[of n1 v1 n2 v2 parse x1 x2] by blast
  have e: "resolveOnResponse parse opts rd
           = Accept \<lparr>status = statusCode rd, headers = headers_in rd,
                     body = Some (JString (foldl (@) [] (chunks rd)))\<rparr>"
    using assms nj
    by (simp add: resolveOnResponse_def bufferResponseBody_def onStreamEnd_def Let_def)
  from a b c d e show ?thesis by (intro conjI)
qed

text \<open>
  The claim as stated fails in \<open>src/index.js\<close>: the body \<open>a: 1\<close>, blank line, \<open>b: 2\<close>
  of a 200 response declared \<open>text/event-stream\<close> is resolved as that text, not as two
  records.
\<close>

theorem event_stream_body_decodes_to_event_records_counterexample:
  "resolveOnResponse sample_parse (defaults ''GET'')
      \<lparr>statusCode = 200, headers_in = [(''content-type'', ''text/event-stream'')],
       chunks = [''a: 1'' @ [CHR 0x0A, CHR 0x0A], ''b: 2'']\<rparr>
     = Accept \<lparr>status = 200, headers = [(''content-type'', ''text/event-stream'')],
               body = Some (JString (''a: 1'' @ [CHR 0x0A, CHR 0x0A] @ ''b: 2''))\<rparr>"
  by (simp add: resolveOnResponse_def bufferResponseBody_def onStreamEnd_def defaults_def
        obj_get_def startsWith_def)

text \<open>
  The property at work: the body \<open>a: 1\<close>, blank line, \<open>b: 2\<close>, received in two chunks,
  in the revision; and the decoding of a body of two events, the first of two fields,
  that ends with a blank line.
\<close>

theorem event_stream_body_decodes_to_event_records_witness:
  "resolveOnResponse_rev2 sample_parse (defaults ''GET'')
      \<lparr>statusCode = 200, headers_in = [(''content-type'', ''text/event-stream'')],
       chunks = [''a: 1'' @ [CHR 0x0A, CHR 0x0A], ''b: 2'']\<rparr>
     = Accept \<lparr>status = 200, headers = [(''content-type'', ''text/event-stream'')],
               body = Some (JArray [JObject [(''a'', JNumber 1)], JObject [(''b'', JNumber 2)]])\<rparr>
   \<and> contentTypeTextEventStream sample_parse
         (''id: 7'' @ [CHR 0x0A] @ ''data: hello'' @ [CHR 0x0A, CHR 0x0A] @ ''id: 8''
            @ [CHR 0x0A, CHR 0x0A])
     = JArray [JObject [(''id'', JNumber 7), (''data'', JString ''hello'')],
               JObject [(''id'', JNumber 8)]]"
proof -
  let ?rd = "\<lparr>statusCode = 200, headers_in = [(''content-type'', ''text/event-stream'')],
       chunks = [''a: 1'' @ [CHR 0x0A, CHR 0x0A], ''b: 2'']\<rparr>"
  have h1: "obj_get (headers_in ?rd) ''content-type'' = Some ''text/event-stream''"
    by (simp add: obj_get_def)
  have h2: "startsWith ''text/event-stream'' ''text/event-stream''" by (simp add: startsWith_def)
  have h3: "\<not> (400 \<le> statusCode ?rd \<and> \<not> doNotThrowOnErrorStatus (defaults ''GET''))" by simp
  have h4: "\<not> (300 \<le> statusCode ?rd \<and> \<not> doNotThrowOnRedirectStatus (defaults ''GET'') \<and> statusCode ?rd < 400)"
    by simp
  have h5: "\<not> downstream (defaults ''GET'')" by (simp add: defaults_def)
  have p1: "sample_parse (trim '' 1'') = Some (JNumber 1)"
    by (simp add: trim_def is_space_def sample_parse_def)
  have p2: "sample_parse (trim '' 2'') = Some (JNumber 2)"
    by (simp add: trim_def is_space_def sample_parse_def)
  have p7: "sample_parse (trim '' 7'') = Some (JNumber 7)"
    by (simp add: trim_def is_space_def sample_parse_def)
  have p8: "sample_parse (trim '' 8'') = Some (JNumber 8)"
    by (simp add: trim_def is_space_def sample_parse_def)
  have ph: "trim '' hello'' = ''hello''" "sample_parse ''hello'' = None"
    by (simp_all add: trim_def is_space_def sample_parse_def)
  have sp: "\<not> is_space CHR ''a''" "\<not> is_space CHR ''2''" "\<not> is_space CHR ''i''"
    "\<not> is_space CHR ''8''"
    by (simp_all add: is_space_def)
  note T = event_stream_body_decodes_to_event_records[OF h1 h2 h3 h4 h5,
        where parse = sample_parse and ?n1.0 = "''a''" and ?v1.0 = "'' 1''" and ?n2.0 = "''b''"
          and ?v2.0 = "'' 2''" and ?x1.0 = 1 and ?x2.0 = 2
          and events = "[[''id: 7'', ''data: hello''], [''id: 8'']]"
          and pre = "[]" and post = "[CHR 0x0A, CHR 0x0A]"]
  have d: "contentTypeTextEventStream sample_parse
             (''a'' @ CHR '':'' # '' 1'' @ [CHR 0x0A, CHR 0x0A] @ ''b'' @ CHR '':'' # '' 2'')
           = JArray [JObject [(''a'', JNumber 1)], JObject [(''b'', JNumber 2)]]"
    using T[THEN conjunct2, THEN conjunct2, THEN conjunct2, THEN conjunct1] p1 p2 sp by simp
  have f7: "event_field sample_parse ''id: 7'' = (''id'', JNumber 7)"
    using event_field_named[of "''id''" sample_parse "'' 7''"] p7 by simp
  have f8: "event_field sample_parse ''id: 8'' = (''id'', JNumber 8)"
    using event_field_named[of "''id''" sample_parse "'' 8''"] p8 by simp
  have fh: "event_field sample_parse ''data: hello'' = (''data'', JString ''hello'')"
    using event_field_named[of "''data''" sample_parse "'' hello''"] ph by simp
  have ai: "array_index ''id'' = None" "array_index ''data'' = None"
    by (simp_all add: array_index_def is_digit_def)
  have nl: "is_space (CHR 0x0A)" by (simp add: is_space_def)
  have g: "contentTypeTextEventStream sample_parse
         (''id: 7'' @ [CHR 0x0A] @ ''data: hello'' @ [CHR 0x0A, CHR 0x0A] @ ''id: 8''
            @ [CHR 0x0A, CHR 0x0A])
     = JArray [JObject [(''id'', JNumber 7), (''data'', JString ''hello'')],
               JObject [(''id'', JNumber 8)]]"
    using T[THEN conjunct2, THEN conjunct1] sp nl
    by (simp add: f7 f8 fh Object_fromEntries_def obj_define_def enumerated_before_def ai)
  show ?thesis
    using T[THEN conjunct1] d g by simp
qed

section \<open>Further properties of the Retry Engine\<close>

lemma classifier_rev2_thrown:
  "resolveRetryLoopError_rev2 opts reconnect j err = Inl thrown
    \<Longrightarrow> thrown = err \<or> thrown = TypeError \<or> (\<exists>k. reconnect k = Some thrown)"
  by (auto simp: resolveRetryLoopError_rev2_def Let_def split: if_splits option.splits)

lemma rev2_loop_outcome_origin:
  "fst (resolveRetryLoop_while_rev2 opts settle reconnect (Suc r) j)
     \<in> range (\<lambda>i. case settle i of
                     Accept resp \<Rightarrow> Returned resp
                   | Reject err \<Rightarrow> Thrown err
                   | Uncaught thrown \<Rightarrow> Pending thrown)
       \<union> {Thrown TypeError}
       \<union> {Thrown reason |reason k. reconnect k = Some reason}"
  (is "_ \<in> ?S")
proof (induction r arbitrary: j)
  case 0
  have here: "(case settle (attempts j) of
                 Accept resp \<Rightarrow> Returned resp
               | Reject err \<Rightarrow> Thrown err
               | Uncaught thrown \<Rightarrow> Pending thrown) \<in> ?S"
    by blast
  show ?case
  proof (cases "settle (attempts j)")
    case (Accept resp)
    then show ?thesis unfolding loop_Suc_rev2 using here by simp
  next
    case (Reject err)
    then show ?thesis unfolding loop_Suc_rev2 using here by simp
  next
    case (Uncaught thrown)
    then show ?thesis unfolding loop_Suc_rev2 using here by simp
  qed
next
  case (Suc r)
  have here: "(case settle (attempts j) of
                 Accept resp \<Rightarrow> Returned resp
               | Reject err \<Rightarrow> Thrown err
               | Uncaught thrown \<Rightarrow> Pending thrown) \<in> ?S"
    by blast
  show ?case
  proof (cases "settle (attempts j)")
    case (Accept resp)
    let ?j = "j\<lparr>attempts := Suc (attempts j)\<rparr>"
    have r: "Returned resp \<in> ?S" using here Accept by simp
    have "resolveRetryLoop_while_rev2 opts settle reconnect (Suc (Suc r)) j
            = resolveRetryLoop_while_rev2 opts settle reconnect (Suc r) ?j
          \<or> resolveRetryLoop_while_rev2 opts settle reconnect (Suc (Suc r)) j = (Returned resp, ?j)"
      using Accept
      by (simp add: loop_Suc_rev2[of opts settle reconnect "Suc r" j]
            del: resolveRetryLoop_while_rev2.simps(2))
    then show ?thesis
    proof
      assume "resolveRetryLoop_while_rev2 opts settle reconnect (Suc (Suc r)) j
            = resolveRetryLoop_while_rev2 opts settle reconnect (Suc r) ?j"
      then show ?thesis using Suc.IH[of ?j] by (simp only:)
    next
      assume "resolveRetryLoop_while_rev2 opts settle reconnect (Suc (Suc r)) j = (Returned resp, ?j)"
      then show ?thesis using r by (simp only: fst_conv)
    qed
  next
    case (Reject err)
    let ?j = "j\<lparr>attempts := Suc (attempts j)\<rparr>"
    show ?thesis
    proof (cases "resolveRetryLoopError_rev2 opts reconnect ?j err")
      case (Inl thrown)
      from classifier_rev2_thrown[OF Inl] here Reject
      have t: "Thrown thrown \<in> ?S" by auto
      have "resolveRetryLoop_while_rev2 opts settle reconnect (Suc (Suc r)) j = (Thrown thrown, ?j)"
        using Reject Inl
        by (simp add: loop_Suc_rev2[of opts settle reconnect "Suc r" j]
              del: resolveRetryLoop_while_rev2.simps(2))
      then show ?thesis using t by (simp only: fst_conv)
    next
      case (Inr j'')
      have "resolveRetryLoop_while_rev2 opts settle reconnect (Suc (Suc r)) j
              = resolveRetryLoop_while_rev2 opts settle reconnect (Suc r)
                  (j''\<lparr>waits := waits j'' @ [retryDelay opts]\<rparr>)"
        using Reject Inr
        by (simp add: loop_Suc_rev2[of opts settle reconnect "Suc r" j]
              del: resolveRetryLoop_while_rev2.simps(2))
      then show ?thesis
        using Suc.IH[of "j''\<lparr>waits := waits j'' @ [retryDelay opts]\<rparr>"] by (simp only:)
    qed
  next
    case (Uncaught thrown)
    have p: "Pending thrown \<in> ?S" using here Uncaught by simp
    have "resolveRetryLoop_while_rev2 opts settle reconnect (Suc (Suc r)) j
            = (Pending thrown, j\<lparr>attempts := Suc (attempts j)\<rparr>)"
      using Uncaught
      by (simp add: loop_Suc_rev2[of opts settle reconnect "Suc r" j]
            del: resolveRetryLoop_while_rev2.simps(2))
    then show ?thesis using p by (simp only: fst_conv)
  qed
qed

text \<open>
  In the revision the statements after the loop are dead code: whatever the attempts and
  the reconnects do, the loop ends with the response or the failure of an attempt, with
  the reason of a failed reconnect, or with a \<open>TypeError\<close> (or it does not end, on an
  attempt that is never settled); it never throws the aggregate it builds there, nor
  \<open>undefined\<close>.
\<close>

lemma rev2_never_reaches_the_aggregate:
  "fst (resolveRetryLoop_rev2 opts settle reconnect)
     \<in> range (\<lambda>i. case settle i of
                     Accept resp \<Rightarrow> Returned resp
                   | Reject err \<Rightarrow> Thrown err
                   | Uncaught thrown \<Rightarrow> Pending thrown)
       \<union> {Thrown TypeError}
       \<union> {Thrown reason |reason k. reconnect k = Some reason}"
  unfolding resolveRetryLoop_rev2_def Suc_eq_plus1[symmetric] by (rule rev2_loop_outcome_origin)

text \<open>
  A scenario of the specification, from the transport events to the caller:
  \<open>retryOnStatus = [503]\<close> and the default budget of three against a server answering
  503, 503, 200 succeed on the third attempt with the last body.
\<close>

lemma attempt_503:
  "fst (resolve sample_platform None
        ((defaults ''GET'')\<lparr>url := ''http://localhost/retry-on-status'', retryOnStatus := [503]\<rparr>)
        (Incoming \<lparr>statusCode = 503, headers_in = [(''content-type'', ''text/plain'')], chunks = [''busy'']\<rparr>))
   = Reject (Error (Some ''E_HTTP_REQUEST_INVALID_RESPONSE_STATUS'') NoCause
       (Some \<lparr>status = 503, headers = [(''content-type'', ''text/plain'')], body = Some (JString ''busy'')\<rparr>))"
  by (simp add: resolve_def normalizeHeaders_def normalizeBody_def normalizeUrl_def
        createBodyHeaderDelimiter_def Object_assign_def resolveHttp1Client_def write_body_def
        obj_get_def defaults_def Let_def on_event_def resolveOnResponse_def bufferResponseBody_def
        onStreamEnd_def startsWith_def sample_platform_def)

lemma attempt_200:
  "fst (resolve sample_platform None
        ((defaults ''GET'')\<lparr>url := ''http://localhost/retry-on-status'', retryOnStatus := [503]\<rparr>)
        (Incoming \<lparr>statusCode = 200, headers_in = [(''content-type'', ''application/json'')], chunks = [''4'', ''2'']\<rparr>))
   = Accept \<lparr>status = 200, headers = [(''content-type'', ''application/json'')], body = Some (JNumber 42)\<rparr>"
  by (simp add: resolve_def normalizeHeaders_def normalizeBody_def normalizeUrl_def
        createBodyHeaderDelimiter_def Object_assign_def resolveHttp1Client_def write_body_def
        obj_get_def defaults_def Let_def on_event_def resolveOnResponse_def bufferResponseBody_def
        onStreamEnd_def startsWith_def sample_parse_def sample_platform_def)

lemma retry_on_503_then_success:
  "fetch ((defaults ''GET'')\<lparr>url := ''http://localhost/retry-on-status'', retryOnStatus := [503]\<rparr>)
     (\<lambda>i. fst (resolve sample_platform None
        ((defaults ''GET'')\<lparr>url := ''http://localhost/retry-on-status'', retryOnStatus := [503]\<rparr>)
        (if i < 2
         then Incoming \<lparr>statusCode = 503, headers_in = [(''content-type'', ''text/plain'')], chunks = [''busy'']\<rparr>
         else Incoming \<lparr>statusCode = 200, headers_in = [(''content-type'', ''application/json'')], chunks = [''4'', ''2'']\<rparr>)))
   = (Returned \<lparr>status = 200, headers = [(''content-type'', ''application/json'')], body = Some (JNumber 42)\<rparr>,
      \<lparr>attempts = 3,
       errorTrace = [Error (Some ''E_HTTP_REQUEST_INVALID_RESPONSE_STATUS'') NoCause
           (Some \<lparr>status = 503, headers = [(''content-type'', ''text/plain'')], body = Some (JString ''busy'')\<rparr>),
         Error (Some ''E_HTTP_REQUEST_INVALID_RESPONSE_STATUS'') NoCause
           (Some \<lparr>status = 503, headers = [(''content-type'', ''text/plain'')], body = Some (JString ''busy'')\<rparr>)],
       waits = [200, 200]\<rparr>)"
proof -
  let ?o = "(defaults ''GET'')\<lparr>url := ''http://localhost/retry-on-status'', retryOnStatus := [503]\<rparr>"
  have n: "nat \<bar>\<lfloor>retry ?o\<rfloor>\<bar> = Suc (Suc (Suc 0))" by (simp add: defaults_def)
  have nz: "retry ?o \<noteq> 0" by (simp add: defaults_def)
  have o: "retryOnStatus ?o = [503]" "retryDelay ?o = 200" "retryOnErrorResponseStatus ?o = False"
    by (simp_all add: defaults_def)
  show ?thesis
    unfolding fetch_def resolveRetryLoop_def n if_P[OF nz]
    by (simp add: loop_Suc attempt_503 attempt_200 resolveRetryLoopError_def o
          del: resolveRetryLoop_while.simps(2))
qed

end
